theory Spec2Isabelle
  imports Main
begin

section \<open>Python values, errors, list indexing and slicing\<close>

text \<open>
  The two exceptions the engine can raise: a dictionary lookup with a missing key and a
  list read out of range.
\<close>

datatype error = KeyError | IndexError

text \<open>
  The values the two move operations return: \<^verbatim>\<open>False\<close>, \<^verbatim>\<open>None\<close> (a method that
  falls off its end) and a string.
\<close>

datatype pyval = PyFalse | PyNone | PyStr string

definition MAX_HEIGHT :: int where
  "MAX_HEIGHT = 5"

text \<open>\<^verbatim>\<open>xs[i]\<close>: a negative index counts from the end, anything out of range raises.\<close>

definition norm_index :: "nat \<Rightarrow> int \<Rightarrow> int" where
  "norm_index n i = (if i < 0 then i + int n else i)"

definition py_index :: "'a list \<Rightarrow> int \<Rightarrow> error + 'a" where
  "py_index xs i =
     (let j = norm_index (length xs) i
      in if 0 \<le> j \<and> j < int (length xs) then Inr (xs ! nat j) else Inl IndexError)"

text \<open>
  The bound of a slice \<^verbatim>\<open>xs[i:]\<close> or \<^verbatim>\<open>xs[:i]\<close>: a negative bound counts from the end,
  and the result is clamped to the list.
\<close>

definition slice_index :: "nat \<Rightarrow> int \<Rightarrow> nat" where
  "slice_index n i = (if i < 0 then nat (max (i + int n) 0) else min (nat i) n)"

definition slice_from :: "'a list \<Rightarrow> int \<Rightarrow> 'a list" where
  "slice_from xs i = drop (slice_index (length xs) i) xs"

definition slice_to :: "'a list \<Rightarrow> int \<Rightarrow> 'a list" where
  "slice_to xs i = take (slice_index (length xs) i) xs"

section \<open>Class Queue\<close>

text \<open>
  A queue object is its \<^verbatim>\<open>data\<close> list: index 0 is the bottom of the stack, the last
  index its top. Each method takes the list and returns the new list with its result.
\<close>

definition Queue_init :: "string \<Rightarrow> string list" where
  "Queue_init first_member = [first_member]"

definition enqueue :: "string list \<Rightarrow> string \<Rightarrow> string list" where
  "enqueue data v = data @ [v]"

definition dequeue :: "string list \<Rightarrow> error + (string \<times> string list)" where
  "dequeue data =
     (case py_index data 0 of
        Inl e \<Rightarrow> Inl e
      | Inr v \<Rightarrow> Inr (v, tl data))"

definition is_empty :: "string list \<Rightarrow> bool" where
  "is_empty data = (length data = 0)"

definition display_top :: "string list \<Rightarrow> error + string" where
  "display_top data = py_index data (- 1)"

text \<open>\<^verbatim>\<open>remove_items\<close> returns the removed pieces and the data that is left.\<close>

definition remove_items :: "string list \<Rightarrow> int \<Rightarrow> string list \<times> string list" where
  "remove_items data num_pieces =
     (let removed_pieces = slice_from data (- num_pieces)
      in (removed_pieces, slice_to data (- num_pieces)))"

definition add_items :: "string list \<Rightarrow> string list \<Rightarrow> string list" where
  "add_items data pieces_to_add = data @ pieces_to_add"

definition get_length :: "string list \<Rightarrow> int" where
  "get_length data = int (length data)"

section \<open>Class Player\<close>

record player =
  name :: string
  piece :: string
  reserve :: int
  captured :: int

definition Player_init :: "string \<Rightarrow> string \<Rightarrow> player" where
  "Player_init n p = \<lparr>name = n, piece = p, reserve = 0, captured = 0\<rparr>"

definition add_captured :: "player \<Rightarrow> player" where
  "add_captured p = p\<lparr>captured := captured p + 1\<rparr>"

definition add_reserved :: "player \<Rightarrow> player" where
  "add_reserved p = p\<lparr>reserve := reserve p + 1\<rparr>"

definition remove_reserved :: "player \<Rightarrow> player" where
  "remove_reserved p =
     (if reserve p > 0 then p\<lparr>reserve := reserve p - 1\<rparr> else p\<lparr>reserve := reserve p - 0\<rparr>)"

section \<open>Class FocusGame\<close>

text \<open>
  The engine owns two player objects and a dictionary from names to them. The dictionary
  holds references, so the state keeps the two objects and the dictionary maps a name to
  the object it refers to. The board is the list of rows of queues.
\<close>

datatype pref = First | Second

record game =
  game_board :: "string list list list"
  first_player :: player
  second_player :: player
  players :: "string \<rightharpoonup> pref"
  player_turn :: "string option"

definition get_player :: "game \<Rightarrow> pref \<Rightarrow> player" where
  "get_player g r = (case r of First \<Rightarrow> first_player g | Second \<Rightarrow> second_player g)"

definition upd_player :: "game \<Rightarrow> pref \<Rightarrow> (player \<Rightarrow> player) \<Rightarrow> game" where
  "upd_player g r f =
     (case r of
        First \<Rightarrow> g\<lparr>first_player := f (first_player g)\<rparr>
      | Second \<Rightarrow> g\<lparr>second_player := f (second_player g)\<rparr>)"

text \<open>\<^verbatim>\<open>self._game_board[row][column]\<close>, the queue read there.\<close>

definition queue_at :: "game \<Rightarrow> int \<Rightarrow> int \<Rightarrow> error + string list" where
  "queue_at g row column =
     (case py_index (game_board g) row of
        Inl e \<Rightarrow> Inl e
      | Inr r \<Rightarrow> py_index r column)"

text \<open>
  A method of the queue at \<^verbatim>\<open>[row][column]\<close> has assigned or changed its data; used
  after \<open>queue_at\<close> has found the queue.
\<close>

definition set_data :: "game \<Rightarrow> int \<Rightarrow> int \<Rightarrow> string list \<Rightarrow> game" where
  "set_data g row column d =
     (let b = game_board g;
          i = nat (norm_index (length b) row);
          r = b ! i;
          j = nat (norm_index (length r) column)
      in g\<lparr>game_board := b[i := r[j := d]]\<rparr>)"

definition FocusGame_init :: "string \<times> string \<Rightarrow> string \<times> string \<Rightarrow> game" where
  "FocusGame_init player_a player_b =
     (let fp = Player_init (fst player_a) (snd player_a);
          sp = Player_init (fst player_b) (snd player_b)
      in \<lparr>game_board =
            [[Queue_init ''R'', Queue_init ''R'', Queue_init ''G'',
              Queue_init ''G'', Queue_init ''R'', Queue_init ''R''],
             [Queue_init ''G'', Queue_init ''G'', Queue_init ''R'',
              Queue_init ''R'', Queue_init ''G'', Queue_init ''G''],
             [Queue_init ''R'', Queue_init ''R'', Queue_init ''G'',
              Queue_init ''G'', Queue_init ''R'', Queue_init ''R''],
             [Queue_init ''G'', Queue_init ''G'', Queue_init ''R'',
              Queue_init ''R'', Queue_init ''G'', Queue_init ''G''],
             [Queue_init ''R'', Queue_init ''R'', Queue_init ''G'',
              Queue_init ''G'', Queue_init ''R'', Queue_init ''R''],
             [Queue_init ''G'', Queue_init ''G'', Queue_init ''R'',
              Queue_init ''R'', Queue_init ''G'', Queue_init ''G'']],
          first_player = fp,
          second_player = sp,
          players = [name fp \<mapsto> First, name sp \<mapsto> Second],
          player_turn = Some (name fp)\<rparr>)"

definition get_player_turn :: "game \<Rightarrow> string option" where
  "get_player_turn g = player_turn g"

definition show_reserve :: "game \<Rightarrow> string \<Rightarrow> int" where
  "show_reserve g player_name =
     (case players g player_name of
        None \<Rightarrow> 0
      | Some r \<Rightarrow> reserve (get_player g r))"

definition show_captured :: "game \<Rightarrow> string \<Rightarrow> int" where
  "show_captured g player_name =
     (case players g player_name of
        None \<Rightarrow> 0
      | Some r \<Rightarrow> captured (get_player g r))"

definition show_pieces :: "game \<Rightarrow> int \<times> int \<Rightarrow> error + string list" where
  "show_pieces g position = (case position of (row, column) \<Rightarrow> queue_at g row column)"

definition check_position :: "game \<Rightarrow> int \<Rightarrow> int \<Rightarrow> bool" where
  "check_position g row column =
     (if \<not> (0 \<le> row \<and> row < int (length (game_board g))) then False
      else if \<not> (0 \<le> column \<and> column < int (length (game_board g))) then False
      else True)"

definition check_move :: "int \<Rightarrow> int \<Rightarrow> int \<Rightarrow> int \<Rightarrow> int \<Rightarrow> bool" where
  "check_move start_row start_column end_row end_column num_pieces =
     (if start_row - end_row = 0 \<and> \<bar>start_column - end_column\<bar> = num_pieces then True
      else if start_column - end_column = 0 \<and> \<bar>start_row - end_row\<bar> = num_pieces then True
      else False)"

definition switch_turns :: "game \<Rightarrow> game" where
  "switch_turns g =
     (if player_turn g = Some (name (first_player g))
      then g\<lparr>player_turn := Some (name (second_player g))\<rparr>
      else g\<lparr>player_turn := Some (name (first_player g))\<rparr>)"

text \<open>
  The loop of \<^verbatim>\<open>remove_pieces\<close>: one \<^verbatim>\<open>dequeue\<close> per iteration, the removed piece
  credited to the player who moved. A raise leaves the state as it is at that point.
\<close>

fun remove_loop :: "game \<Rightarrow> pref \<Rightarrow> int \<Rightarrow> int \<Rightarrow> nat \<Rightarrow> error option \<times> game" where
  "remove_loop g rp row column 0 = (None, g)"
| "remove_loop g rp row column (Suc k) =
     (case queue_at g row column of
        Inl e \<Rightarrow> (Some e, g)
      | Inr data \<Rightarrow>
          (case dequeue data of
             Inl e \<Rightarrow> (Some e, g)
           | Inr (removed_piece, rest) \<Rightarrow>
               let g1 = set_data g row column rest
               in remove_loop
                    (if removed_piece = piece (get_player g1 rp)
                     then upd_player g1 rp add_reserved
                     else upd_player g1 rp add_captured)
                    rp row column k))"

definition remove_pieces :: "game \<Rightarrow> string \<Rightarrow> int \<Rightarrow> int \<Rightarrow> error option \<times> game" where
  "remove_pieces g player_name row column =
     (case players g player_name of
        None \<Rightarrow> (Some KeyError, g)
      | Some reserved_player \<Rightarrow>
          (case queue_at g row column of
             Inl e \<Rightarrow> (Some e, g)
           | Inr stack \<Rightarrow>
               if get_length stack > MAX_HEIGHT
               then remove_loop g reserved_player row column
                      (nat (get_length stack - MAX_HEIGHT))
               else (None, g)))"

text \<open>
  The two nested loops of \<^verbatim>\<open>check_win\<close> run over the list of index pairs in row-major
  order; both ranges are the number of rows.
\<close>

fun check_win_loop :: "game \<Rightarrow> string \<Rightarrow> (nat \<times> nat) list \<Rightarrow> bool \<Rightarrow> error + bool" where
  "check_win_loop g pc [] wins = Inr wins"
| "check_win_loop g pc ((row, column) # rest) wins =
     (case queue_at g (int row) (int column) of
        Inl e \<Rightarrow> Inl e
      | Inr q \<Rightarrow>
          if get_length q > 0
          then (case display_top q of
                  Inl e \<Rightarrow> Inl e
                | Inr top_piece \<Rightarrow> check_win_loop g pc rest (if top_piece \<noteq> pc then False else wins))
          else check_win_loop g pc rest wins)"

definition check_win :: "game \<Rightarrow> string \<Rightarrow> error + bool" where
  "check_win g player_name =
     (case players g player_name of
        None \<Rightarrow> Inl KeyError
      | Some pl \<Rightarrow>
          let n = length (game_board g)
          in check_win_loop g (piece (get_player g pl))
               (List.product [0..<n] [0..<n])
               (if captured (get_player g pl) < 18 then False else True))"

text \<open>
  \<^verbatim>\<open>reserved_move\<close>. Each result is the returned value or the raised error, with the
  state at that point.
\<close>

definition reserved_move :: "game \<Rightarrow> string \<Rightarrow> int \<times> int \<Rightarrow> (error + pyval) \<times> game" where
  "reserved_move g player_name position =
     (case position of (row, column) \<Rightarrow>
      case players g player_name of
        None \<Rightarrow> (Inl KeyError, g)
      | Some pl \<Rightarrow>
          if Some player_name \<noteq> player_turn g then (Inr PyFalse, g)
          else if reserve (get_player g pl) \<le> 0 then (Inr PyFalse, g)
          else if \<not> check_position g row column then (Inr PyFalse, g)
          else
            (case queue_at g row column of
               Inl e \<Rightarrow> (Inl e, g)
             | Inr q \<Rightarrow>
                 let g1 = set_data g row column (enqueue q (piece (get_player g pl)));
                     g2 = upd_player g1 pl remove_reserved
                 in (case remove_pieces g2 player_name row column of
                       (Some e, g3) \<Rightarrow> (Inl e, g3)
                     | (None, g3) \<Rightarrow> (Inr PyNone, switch_turns g3))))"

text \<open>
  \<^verbatim>\<open>move_piece\<close>. \<open>transfer\<close> is the part that takes the pieces off the starting queue
  and adds them to the ending queue, before the height of the ending queue is looked at.
\<close>

definition transfer :: "game \<Rightarrow> int \<times> int \<Rightarrow> int \<times> int \<Rightarrow> int \<Rightarrow> error option \<times> game" where
  "transfer g move_from move_to num_pieces =
     (case move_from of (start_row, start_column) \<Rightarrow>
      case move_to of (end_row, end_column) \<Rightarrow>
      case queue_at g start_row start_column of
        Inl e \<Rightarrow> (Some e, g)
      | Inr src \<Rightarrow>
          (case remove_items src num_pieces of
             (moved_pieces, rest) \<Rightarrow>
               let g1 = set_data g start_row start_column rest
               in (case queue_at g1 end_row end_column of
                     Inl e \<Rightarrow> (Some e, g1)
                   | Inr dst \<Rightarrow>
                       (None, set_data g1 end_row end_column (add_items dst moved_pieces)))))"

definition move_piece ::
  "game \<Rightarrow> string \<Rightarrow> int \<times> int \<Rightarrow> int \<times> int \<Rightarrow> int \<Rightarrow> (error + pyval) \<times> game" where
  "move_piece g player_name move_from move_to num_pieces =
     (case move_from of (start_row, start_column) \<Rightarrow>
      case move_to of (end_row, end_column) \<Rightarrow>
      case players g player_name of
        None \<Rightarrow> (Inl KeyError, g)
      | Some pl \<Rightarrow>
          if Some player_name \<noteq> player_turn g then (Inr PyFalse, g)
          else if \<not> check_position g start_row start_column
                  \<or> \<not> check_position g end_row end_column then (Inr PyFalse, g)
          else
            (case queue_at g start_row start_column of
               Inl e \<Rightarrow> (Inl e, g)
             | Inr src \<Rightarrow>
                 if num_pieces > get_length src then (Inr PyFalse, g)
                 else if \<not> check_move start_row start_column end_row end_column num_pieces
                 then (Inr PyFalse, g)
                 else
                   (case display_top src of
                      Inl e \<Rightarrow> (Inl e, g)
                    | Inr top_piece \<Rightarrow>
                        if piece (get_player g pl) \<noteq> top_piece then (Inr PyFalse, g)
                        else
                          (case transfer g move_from move_to num_pieces of
                             (Some e, g2) \<Rightarrow> (Inl e, g2)
                           | (None, g2) \<Rightarrow>
                               (case remove_pieces g2 player_name end_row end_column of
                                  (Some e, g3) \<Rightarrow> (Inl e, g3)
                                | (None, g3) \<Rightarrow>
                                    let g4 = switch_turns g3
                                    in (case check_win g4 player_name of
                                          Inl e \<Rightarrow> (Inl e, g4)
                                        | Inr w \<Rightarrow>
                                            if w
                                            then (Inr (PyStr ''Wins''),
                                                  g4\<lparr>player_turn := None\<rparr>)
                                            else (Inr (PyStr ''successfully moved''),
                                                  g4)))))))"

section \<open>Notions used to state the properties\<close>

text \<open>
  The board the constructor builds has six rows of six queues, and no operation changes
  that shape. \<open>cell\<close> reads the stack of a position that is on the board.
\<close>

definition board_ok :: "game \<Rightarrow> bool" where
  "board_ok g = (length (game_board g) = 6 \<and> list_all (\<lambda>r. length r = 6) (game_board g))"

definition in_bounds :: "int \<Rightarrow> int \<Rightarrow> bool" where
  "in_bounds row column = (0 \<le> row \<and> row < 6 \<and> 0 \<le> column \<and> column < 6)"

definition cell :: "game \<Rightarrow> int \<Rightarrow> int \<Rightarrow> string list" where
  "cell g row column = game_board g ! nat row ! nat column"

text \<open>
  The state the height reduction leaves when it removes \<open>k\<close> pieces from the bottom
  of the stack at a position on behalf of the player object \<open>rp\<close>: the stack without
  its \<open>k\<close> bottom pieces, the removed pieces of the player's own symbol added to the
  player's reserve and the others to the player's captured count.
\<close>

definition shed :: "game \<Rightarrow> pref \<Rightarrow> int \<Rightarrow> int \<Rightarrow> nat \<Rightarrow> game" where
  "shed g rp row column k =
     (let s = cell g row column;
          pc = piece (get_player g rp);
          removed = take k s
      in upd_player (set_data g row column (drop k s)) rp
           (\<lambda>p. p\<lparr>reserve := reserve p + int (length (filter (\<lambda>x. x = pc) removed)),
                  captured := captured p + int (length (filter (\<lambda>x. x \<noteq> pc) removed))\<rparr>))"

text \<open>Crediting one removed piece to the player object \<open>rp\<close>, as one iteration of the
  loop of \<^verbatim>\<open>remove_pieces\<close> does.\<close>

definition credit :: "pref \<Rightarrow> game \<Rightarrow> string \<Rightarrow> game" where
  "credit rp g removed_piece =
     (if removed_piece = piece (get_player g rp)
      then upd_player g rp add_reserved
      else upd_player g rp add_captured)"

text \<open>A board with a stack of seven pieces at the corner, as a move leaves it before the
  height of the stack is looked at.\<close>

definition tall :: game where
  "tall = set_data (FocusGame_init (''A'', ''R'') (''B'', ''G'')) 0 0
            [''R'', ''G'', ''G'', ''R'', ''R'', ''G'', ''R'']"

text \<open>
  The win condition in the words of the rules: at least 18 captured pieces, and the
  player's own symbol on top of every stack of the board that is not empty.
\<close>

definition win_condition :: "game \<Rightarrow> pref \<Rightarrow> bool" where
  "win_condition g pl =
     (18 \<le> captured (get_player g pl)
      \<and> (\<forall>row \<in> {0..<6}. \<forall>column \<in> {0..<6}.
            cell g (int row) (int column) \<noteq> []
            \<longrightarrow> last (cell g (int row) (int column)) = piece (get_player g pl)))"

text \<open>
  The end of a move that has been carried out: the turn is switched, then the win
  condition of the player who moved decides between the two outcomes.
\<close>

definition finish_move :: "game \<Rightarrow> pref \<Rightarrow> (error + pyval) \<times> game" where
  "finish_move g3 pl =
     (let g4 = switch_turns g3
      in if win_condition g4 pl
         then (Inr (PyStr ''Wins''), g4\<lparr>player_turn := None\<rparr>)
         else (Inr (PyStr ''successfully moved''), g4))"

text \<open>A new game of the players A, with the piece R, and B, with the piece G.\<close>

definition start :: game where
  "start = FocusGame_init (''A'', ''R'') (''B'', ''G'')"

text \<open>
  The pieces of a state: those on the board and those counted in the four counters of the
  two players.
\<close>

definition pieces_on_board :: "game \<Rightarrow> nat" where
  "pieces_on_board g = length (concat (concat (game_board g)))"

definition total_pieces :: "game \<Rightarrow> int" where
  "total_pieces g =
     int (pieces_on_board g)
     + reserve (first_player g) + captured (first_player g)
     + reserve (second_player g) + captured (second_player g)"

text \<open>
  Playing a list of moves one after the other, and an opening of twelve moves after which
  player A holds one piece in reserve and a stack of five R pieces stands at (3, 3).
\<close>

fun play :: "game \<Rightarrow> (string \<times> (int \<times> int) \<times> (int \<times> int) \<times> int) list \<Rightarrow> game" where
  "play g [] = g"
| "play g ((player_name, move_from, move_to, num_pieces) # rest) =
     play (snd (move_piece g player_name move_from move_to num_pieces)) rest"

definition build_up :: "(string \<times> (int \<times> int) \<times> (int \<times> int) \<times> int) list" where
  "build_up =
     [(''A'', (0, 0), (0, 1), 1), (''B'', (5, 0), (5, 1), 1),
      (''A'', (0, 1), (0, 3), 2), (''B'', (5, 1), (5, 3), 2),
      (''A'', (0, 3), (3, 3), 3), (''B'', (5, 3), (5, 4), 1),
      (''A'', (3, 2), (3, 3), 1), (''B'', (5, 4), (5, 5), 1),
      (''A'', (1, 2), (1, 3), 1), (''B'', (5, 5), (5, 4), 1),
      (''A'', (1, 3), (3, 3), 2), (''B'', (5, 4), (5, 5), 1)]"

text \<open>
  A whole game of forty moves, all of them carried out, after which player A wins with the
  move of the stack at (5, 5) onto the stack at (5, 0). A gathers five R pieces into one
  stack and carries it from corner to corner; B gathers the G pieces into stacks at the
  corners where that stack lands.
\<close>

definition whole_game :: "(string \<times> (int \<times> int) \<times> (int \<times> int) \<times> int) list" where
  "whole_game =
     [(''A'', (2, 0), (2, 1), 1), (''B'', (3, 0), (3, 1), 1),
      (''A'', (2, 1), (0, 1), 2), (''B'', (3, 1), (5, 1), 2),
      (''A'', (0, 1), (0, 4), 3), (''B'', (5, 1), (5, 4), 3),
      (''A'', (0, 4), (0, 0), 4), (''B'', (5, 4), (5, 0), 4),
      (''A'', (0, 0), (5, 0), 5), (''B'', (0, 2), (0, 3), 1),
      (''A'', (3, 2), (3, 3), 1), (''B'', (2, 3), (1, 3), 1),
      (''A'', (3, 3), (3, 2), 1), (''B'', (1, 3), (0, 3), 1),
      (''A'', (3, 2), (3, 3), 1), (''B'', (0, 3), (0, 0), 3),
      (''A'', (3, 3), (3, 2), 1), (''B'', (1, 1), (1, 0), 1),
      (''A'', (3, 2), (3, 3), 1), (''B'', (1, 0), (0, 0), 1),
      (''A'', (3, 3), (3, 2), 1), (''B'', (1, 0), (0, 0), 1),
      (''A'', (5, 0), (0, 0), 5), (''B'', (1, 4), (1, 5), 1),
      (''A'', (0, 0), (0, 5), 5), (''B'', (3, 4), (3, 5), 1),
      (''A'', (3, 2), (3, 3), 1), (''B'', (3, 5), (1, 5), 2),
      (''A'', (3, 3), (3, 2), 1), (''B'', (1, 5), (5, 5), 4),
      (''A'', (0, 5), (5, 5), 5), (''B'', (4, 3), (4, 2), 1),
      (''A'', (3, 2), (3, 3), 1), (''B'', (4, 2), (2, 2), 2),
      (''A'', (3, 3), (3, 2), 1), (''B'', (2, 2), (5, 2), 3),
      (''A'', (3, 2), (3, 3), 1), (''B'', (5, 2), (5, 0), 2),
      (''A'', (3, 3), (3, 2), 1), (''B'', (5, 2), (5, 0), 2)]"

text \<open>
  The states a game can be in: the constructed one, and the state any call of one of the
  two move operations leaves, whatever it returns or raises.
\<close>

inductive reachable :: "game \<Rightarrow> bool" where
  constructed: "reachable (FocusGame_init player_a player_b)"
| after_reserved_move:
    "reachable g \<Longrightarrow> reachable (snd (reserved_move g player_name position))"
| after_move_piece:
    "reachable g \<Longrightarrow> reachable (snd (move_piece g player_name move_from move_to num_pieces))"

code_pred reachable .

section \<open>Reading and writing the board\<close>

lemma py_index_in_range: "0 \<le> i \<Longrightarrow> i < int (length xs) \<Longrightarrow> py_index xs i = Inr (xs ! nat i)"
  by (simp add: py_index_def norm_index_def)

lemma py_index_last: "xs \<noteq> [] \<Longrightarrow> py_index xs (- 1) = Inr (last xs)"
  by (cases xs rule: rev_cases) (simp_all add: py_index_def norm_index_def nat_add_distrib)

lemma py_index_Nil: "py_index [] i = Inl IndexError"
  by (simp add: py_index_def norm_index_def)

lemma in_bounds_nat: "in_bounds row column \<Longrightarrow> nat row < 6 \<and> nat column < 6"
  by (simp add: in_bounds_def nat_less_iff)

lemma board_ok_row: "board_ok g \<Longrightarrow> i < 6 \<Longrightarrow> length (game_board g ! i) = 6"
  by (simp add: board_ok_def list_all_length)

lemma check_position_in_bounds: "board_ok g \<Longrightarrow> check_position g row column = in_bounds row column"
  by (auto simp: check_position_def in_bounds_def board_ok_def)

lemma queue_at_cell:
  "board_ok g \<Longrightarrow> in_bounds row column \<Longrightarrow> queue_at g row column = Inr (cell g row column)"
proof -
  assume ok: "board_ok g" and ib: "in_bounds row column"
  have r: "py_index (game_board g) row = Inr (game_board g ! nat row)"
    using ok ib by (simp add: py_index_in_range in_bounds_def board_ok_def)
  have "length (game_board g ! nat row) = 6"
    using ok ib by (simp add: board_ok_row in_bounds_nat)
  then have "py_index (game_board g ! nat row) column = Inr (game_board g ! nat row ! nat column)"
    using ib by (simp add: py_index_in_range in_bounds_def)
  with r show ?thesis by (simp add: queue_at_def cell_def)
qed

lemma set_data_board:
  "board_ok g \<Longrightarrow> in_bounds row column \<Longrightarrow>
   game_board (set_data g row column d) =
     (game_board g)[nat row := (game_board g ! nat row)[nat column := d]]"
  by (simp add: set_data_def Let_def norm_index_def in_bounds_def)

lemma set_data_fields [simp]:
  "first_player (set_data g row column d) = first_player g"
  "second_player (set_data g row column d) = second_player g"
  "players (set_data g row column d) = players g"
  "player_turn (set_data g row column d) = player_turn g"
  by (simp_all add: set_data_def Let_def)

lemma board_ok_set_data:
  "board_ok g \<Longrightarrow> in_bounds row column \<Longrightarrow> board_ok (set_data g row column d)"
  using in_bounds_nat [of row column]
  by (auto simp: board_ok_def list_all_length set_data_board nth_list_update)

lemma cell_set_data:
  "board_ok g \<Longrightarrow> in_bounds row column \<Longrightarrow> in_bounds r c \<Longrightarrow>
   cell (set_data g row column d) r c = (if r = row \<and> c = column then d else cell g r c)"
  using in_bounds_nat [of row column] in_bounds_nat [of r c]
  by (auto simp: cell_def set_data_board in_bounds_def nth_list_update board_ok_def
        list_all_length)

lemma set_data_twice:
  "board_ok g \<Longrightarrow> in_bounds row column \<Longrightarrow>
   set_data (set_data g row column d) row column d' = set_data g row column d'"
  using in_bounds_nat [of row column]
  by (simp add: set_data_def Let_def norm_index_def in_bounds_def board_ok_def)

lemma set_data_same:
  "board_ok g \<Longrightarrow> in_bounds row column \<Longrightarrow> set_data g row column (cell g row column) = g"
  by (simp add: set_data_def Let_def norm_index_def in_bounds_def cell_def)

section \<open>The player objects\<close>

lemma upd_player_fields [simp]:
  "game_board (upd_player g r f) = game_board g"
  "players (upd_player g r f) = players g"
  "player_turn (upd_player g r f) = player_turn g"
  by (simp_all add: upd_player_def split: pref.splits)

lemma get_player_upd_player:
  "get_player (upd_player g r f) r' = (if r' = r then f (get_player g r) else get_player g r')"
  by (cases r; cases r') (simp_all add: upd_player_def get_player_def)

lemma get_player_set_data [simp]: "get_player (set_data g row column d) r = get_player g r"
  by (simp add: get_player_def split: pref.splits)

lemma board_ok_upd_player [simp]: "board_ok (upd_player g r f) = board_ok g"
  by (simp add: board_ok_def)

lemma cell_upd_player [simp]: "cell (upd_player g r f) row column = cell g row column"
  by (simp add: cell_def)

lemma set_data_upd_player:
  "set_data (upd_player g r f) row column d = upd_player (set_data g row column d) r f"
  by (cases r) (simp_all add: upd_player_def set_data_def Let_def)

lemma upd_player_twice:
  "upd_player (upd_player g r f) r h = upd_player g r (\<lambda>p. h (f p))"
  by (cases r) (simp_all add: upd_player_def)

lemma upd_player_cong:
  "f (get_player g r) = h (get_player g r) \<Longrightarrow> upd_player g r f = upd_player g r h"
  by (cases r) (simp_all add: upd_player_def get_player_def)

lemma upd_player_id: "f (get_player g r) = get_player g r \<Longrightarrow> upd_player g r f = g"
  by (cases r) (simp_all add: upd_player_def get_player_def)

lemma dequeue_Cons: "dequeue (x # xs) = Inr (x, xs)"
  by (simp add: dequeue_def py_index_def norm_index_def)

lemma shed_0: "board_ok g \<Longrightarrow> in_bounds row column \<Longrightarrow> shed g rp row column 0 = g"
  by (simp add: shed_def set_data_same upd_player_id)

lemma remove_loop_shed:
  "board_ok g \<Longrightarrow> in_bounds row column \<Longrightarrow> k \<le> length (cell g row column) \<Longrightarrow>
   remove_loop g rp row column k = (None, shed g rp row column k)"
proof (induction k arbitrary: g)
  case 0
  then show ?case by (simp add: shed_0)
next
  case (Suc k)
  from Suc.prems obtain x s' where s: "cell g row column = x # s'"
    by (cases "cell g row column") auto
  let ?g1 = "set_data g row column s'"
  let ?credit = "if x = piece (get_player g rp) then add_reserved else add_captured"
  let ?g2 = "upd_player ?g1 rp ?credit"
  have ok2: "board_ok ?g2"
    using Suc.prems by (simp add: board_ok_set_data)
  have c2: "cell ?g2 row column = s'"
    using Suc.prems by (simp add: cell_set_data)
  have len: "k \<le> length (cell ?g2 row column)"
    using Suc.prems s c2 by simp
  have step: "remove_loop g rp row column (Suc k) = remove_loop ?g2 rp row column k"
    using Suc.prems s by (simp add: queue_at_cell dequeue_Cons Let_def)
  have pc: "piece (get_player ?g2 rp) = piece (get_player g rp)"
    by (simp add: get_player_upd_player add_reserved_def add_captured_def)
  have "shed ?g2 rp row column k = shed g rp row column (Suc k)"
    unfolding shed_def Let_def c2 pc s
    using Suc.prems
    by (simp add: set_data_upd_player set_data_twice upd_player_twice
          add_reserved_def add_captured_def add.assoc)
  with step Suc.IH [OF ok2 Suc.prems(2) len] show ?case by simp
qed

section \<open>The height reduction\<close>

lemma remove_pieces_shed:
  "board_ok g \<Longrightarrow> in_bounds row column \<Longrightarrow> players g player_name = Some rp \<Longrightarrow>
   remove_pieces g player_name row column =
     (None, shed g rp row column (length (cell g row column) - 5))"
  by (simp add: remove_pieces_def queue_at_cell get_length_def MAX_HEIGHT_def
        remove_loop_shed shed_0 nat_diff_distrib')

lemma shed_fields [simp]:
  "players (shed g rp row column k) = players g"
  "player_turn (shed g rp row column k) = player_turn g"
  by (simp_all add: shed_def Let_def)

lemma board_ok_shed:
  "board_ok g \<Longrightarrow> in_bounds row column \<Longrightarrow> board_ok (shed g rp row column k)"
  by (simp add: shed_def Let_def board_ok_set_data)

lemma cell_shed:
  "board_ok g \<Longrightarrow> in_bounds row column \<Longrightarrow> in_bounds r c \<Longrightarrow>
   cell (shed g rp row column k) r c =
     (if r = row \<and> c = column then drop k (cell g row column) else cell g r c)"
  by (simp add: shed_def Let_def cell_set_data)

lemma get_player_shed:
  "get_player (shed g rp row column k) r =
     (if r = rp
      then (get_player g rp)
             \<lparr>reserve := reserve (get_player g rp)
                 + int (length (filter (\<lambda>x. x = piece (get_player g rp))
                                  (take k (cell g row column)))),
              captured := captured (get_player g rp)
                 + int (length (filter (\<lambda>x. x \<noteq> piece (get_player g rp))
                                  (take k (cell g row column))))\<rparr>
      else get_player g r)"
  by (simp add: shed_def Let_def get_player_upd_player)

lemma foldl_credit:
  "foldl (credit rp) g xs =
     upd_player g rp
       (\<lambda>p. p\<lparr>reserve := reserve p + int (length (filter (\<lambda>x. x = piece (get_player g rp)) xs)),
              captured := captured p + int (length (filter (\<lambda>x. x \<noteq> piece (get_player g rp)) xs))\<rparr>)"
proof (induction xs arbitrary: g)
  case Nil
  show ?case by (simp add: upd_player_id)
next
  case (Cons x xs)
  have pc: "piece (get_player (credit rp g x) rp) = piece (get_player g rp)"
    by (simp add: credit_def get_player_upd_player add_reserved_def add_captured_def)
  show ?case
    unfolding foldl_Cons Cons.IH pc
    by (simp add: credit_def upd_player_twice add_reserved_def add_captured_def add.assoc)
qed

lemma tall_facts:
  "board_ok tall" "in_bounds 0 0" "players tall ''A'' = Some First"
  "cell tall 0 0 = [''R'', ''G'', ''G'', ''R'', ''R'', ''G'', ''R'']"
  "get_player tall First = \<lparr>name = ''A'', piece = ''R'', reserve = 0, captured = 0\<rparr>"
  by (simp_all add: tall_def FocusGame_init_def Player_init_def Queue_init_def set_data_def
        norm_index_def board_ok_def in_bounds_def cell_def get_player_def)

text \<open>
  What \<^verbatim>\<open>remove_pieces\<close> does when it is called on its own, for the player registered
  under \<open>player_name\<close> at a position on the board.
\<close>

lemma remove_pieces_alone:
  assumes "board_ok g" and "in_bounds row column" and "players g player_name = Some rp"
  shows "let s = cell g row column;
             k = length s - 5;
             pc = piece (get_player g rp);
             g' = snd (remove_pieces g player_name row column)
         in fst (remove_pieces g player_name row column) = None
          \<and> foldl (credit rp) (set_data g row column (drop k s)) (take k s) = g'
          \<and> cell g' row column = drop k s
          \<and> length (cell g' row column) = min 5 (length s)
          \<and> reserve (get_player g' rp)
              = reserve (get_player g rp) + int (length (filter (\<lambda>x. x = pc) (take k s)))
          \<and> captured (get_player g' rp)
              = captured (get_player g rp) + int (length (filter (\<lambda>x. x \<noteq> pc) (take k s)))
          \<and> (\<forall>r. r \<noteq> rp \<longrightarrow> get_player g' r = get_player g r)
          \<and> (\<forall>r c. in_bounds r c \<and> (r, c) \<noteq> (row, column) \<longrightarrow> cell g' r c = cell g r c)
          \<and> (length s \<le> 5 \<longrightarrow> g' = g)"
proof -
  let ?s = "cell g row column"
  let ?k = "length ?s - 5"
  have rp: "remove_pieces g player_name row column = (None, shed g rp row column ?k)"
    using assms by (rule remove_pieces_shed)
  have fold: "shed g rp row column ?k
      = foldl (credit rp) (set_data g row column (drop ?k ?s)) (take ?k ?s)"
    by (simp add: foldl_credit shed_def Let_def)
  have same: "length ?s \<le> 5 \<longrightarrow> shed g rp row column ?k = g"
    using assms by (simp add: shed_0)
  have props: "cell (shed g rp row column ?k) row column = drop ?k ?s
      \<and> length (cell (shed g rp row column ?k) row column) = min 5 (length ?s)
      \<and> reserve (get_player (shed g rp row column ?k) rp)
          = reserve (get_player g rp)
            + int (length (filter (\<lambda>x. x = piece (get_player g rp)) (take ?k ?s)))
      \<and> captured (get_player (shed g rp row column ?k) rp)
          = captured (get_player g rp)
            + int (length (filter (\<lambda>x. x \<noteq> piece (get_player g rp)) (take ?k ?s)))
      \<and> (\<forall>r. r \<noteq> rp \<longrightarrow> get_player (shed g rp row column ?k) r = get_player g r)
      \<and> (\<forall>r c. in_bounds r c \<and> (r, c) \<noteq> (row, column)
            \<longrightarrow> cell (shed g rp row column ?k) r c = cell g r c)"
    using assms by (auto simp: cell_shed get_player_shed min_def)
  show ?thesis
    unfolding Let_def rp fst_conv snd_conv
    using props fold [symmetric] same by simp
qed

section \<open>The two move operations, case by case\<close>

lemma reserved_move_unknown:
  "players g player_name = None \<Longrightarrow> reserved_move g player_name position = (Inl KeyError, g)"
  by (simp add: reserved_move_def split: prod.splits)

lemma reserved_move_reject:
  "board_ok g \<Longrightarrow> players g player_name = Some pl \<Longrightarrow>
   player_turn g \<noteq> Some player_name \<or> reserve (get_player g pl) \<le> 0 \<or> \<not> in_bounds row column \<Longrightarrow>
   reserved_move g player_name (row, column) = (Inr PyFalse, g)"
  by (auto simp: reserved_move_def check_position_in_bounds)

lemma reserved_move_accept:
  assumes "board_ok g" and "players g player_name = Some pl"
    and "player_turn g = Some player_name" and "0 < reserve (get_player g pl)"
    and "in_bounds row column"
  shows "reserved_move g player_name (row, column) =
     (Inr PyNone,
      switch_turns
        (shed (upd_player
                 (set_data g row column (cell g row column @ [piece (get_player g pl)]))
                 pl remove_reserved)
           pl row column (length (cell g row column) + 1 - 5)))"
proof -
  let ?g1 = "set_data g row column (cell g row column @ [piece (get_player g pl)])"
  let ?g2 = "upd_player ?g1 pl remove_reserved"
  have ok: "board_ok ?g2" using assms by (simp add: board_ok_set_data)
  have pl: "players ?g2 player_name = Some pl" using assms by simp
  have c: "cell ?g2 row column = cell g row column @ [piece (get_player g pl)]"
    using assms by (simp add: cell_set_data)
  have "remove_pieces ?g2 player_name row column =
      (None, shed ?g2 pl row column (length (cell g row column) + 1 - 5))"
    using remove_pieces_shed [OF ok assms(5) pl] assms(1,5) by (simp add: cell_set_data)
  then show ?thesis
    using assms
    by (simp add: reserved_move_def check_position_in_bounds queue_at_cell enqueue_def Let_def)
qed

lemma remove_items_eq:
  "0 \<le> n \<Longrightarrow> n \<le> int (length xs) \<Longrightarrow>
   remove_items xs n =
     (if n = 0 then (xs, []) else (drop (length xs - nat n) xs, take (length xs - nat n) xs))"
  by (auto simp: remove_items_def slice_from_def slice_to_def slice_index_def Let_def
        nat_diff_distrib' max_def) 

lemma check_move_count:
  "check_move sr sc er ec n \<Longrightarrow> 0 \<le> n \<and> (n = 0 \<longleftrightarrow> sr = er \<and> sc = ec)"
  by (auto simp: check_move_def split: if_splits)

lemma transfer_pass:
  "board_ok g \<Longrightarrow> in_bounds r c \<Longrightarrow> transfer g (r, c) (r, c) 0 = (None, g)"
  by (simp add: transfer_def queue_at_cell remove_items_eq board_ok_set_data cell_set_data
        add_items_def set_data_twice set_data_same)

lemma transfer_move:
  assumes "board_ok g" and "in_bounds sr sc" and "in_bounds er ec"
    and "\<not> (sr = er \<and> sc = ec)" and "0 < n" and "n \<le> int (length (cell g sr sc))"
  shows "transfer g (sr, sc) (er, ec) n =
     (None,
      set_data
        (set_data g sr sc (take (length (cell g sr sc) - nat n) (cell g sr sc)))
        er ec
        (cell g er ec @ drop (length (cell g sr sc) - nat n) (cell g sr sc)))"
  using assms
  by (auto simp: transfer_def queue_at_cell remove_items_eq board_ok_set_data cell_set_data
        add_items_def)

lemma check_win_loop_eq:
  "board_ok g \<Longrightarrow> \<forall>(r, c) \<in> set ps. r < 6 \<and> c < 6 \<Longrightarrow>
   check_win_loop g pc ps w =
     Inr (w \<and> (\<forall>(r, c) \<in> set ps.
                 cell g (int r) (int c) \<noteq> [] \<longrightarrow> last (cell g (int r) (int c)) = pc))"
proof (induction ps arbitrary: w)
  case Nil
  show ?case by simp
next
  case (Cons p ps)
  obtain r c where p: "p = (r, c)" by (cases p)
  with Cons.prems have ib: "in_bounds (int r) (int c)" by (simp add: in_bounds_def)
  from Cons.prems have rest: "\<forall>(r, c) \<in> set ps. r < 6 \<and> c < 6" by simp
  show ?case
    unfolding p
    using Cons.prems(1) ib Cons.IH [OF Cons.prems(1) rest]
    by (auto simp: queue_at_cell get_length_def display_top_def py_index_last)
qed

lemma check_win_eq:
  "board_ok g \<Longrightarrow> players g player_name = Some pl \<Longrightarrow>
   check_win g player_name = Inr (win_condition g pl)"
proof -
  assume ok: "board_ok g" and pl: "players g player_name = Some pl"
  have len: "length (game_board g) = 6" using ok by (simp add: board_ok_def)
  have "\<forall>(r, c) \<in> set (List.product [0..<6] [0..<6]). r < 6 \<and> c < 6" by auto
  from check_win_loop_eq [OF ok this] show ?thesis
    by (auto simp: check_win_def pl len win_condition_def Let_def)
qed


lemma switch_turns_fields [simp]:
  "game_board (switch_turns g) = game_board g"
  "players (switch_turns g) = players g"
  "first_player (switch_turns g) = first_player g"
  "second_player (switch_turns g) = second_player g"
  by (simp_all add: switch_turns_def)

lemma switch_turns_views [simp]:
  "get_player (switch_turns g) r = get_player g r"
  "cell (switch_turns g) row column = cell g row column"
  "board_ok (switch_turns g) = board_ok g"
  by (simp_all add: get_player_def cell_def board_ok_def split: pref.splits)

lemma player_turn_switch_turns:
  "player_turn (switch_turns g) =
     Some (if player_turn g = Some (name (first_player g))
           then name (second_player g) else name (first_player g))"
  by (simp add: switch_turns_def)

lemma transfer_result:
  assumes "board_ok g" and "in_bounds sr sc" and "in_bounds er ec"
    and "check_move sr sc er ec n" and "n \<le> int (length (cell g sr sc))"
  shows "fst (transfer g (sr, sc) (er, ec) n) = None"
    and "board_ok (snd (transfer g (sr, sc) (er, ec) n))"
    and "players (snd (transfer g (sr, sc) (er, ec) n)) = players g"
    and "player_turn (snd (transfer g (sr, sc) (er, ec) n)) = player_turn g"
    and "first_player (snd (transfer g (sr, sc) (er, ec) n)) = first_player g"
    and "second_player (snd (transfer g (sr, sc) (er, ec) n)) = second_player g"
    and "cell (snd (transfer g (sr, sc) (er, ec) n)) sr sc
           = take (length (cell g sr sc) - nat n) (cell g sr sc)"
    and "cell (snd (transfer g (sr, sc) (er, ec) n)) er ec
           = cell g er ec @ drop (length (cell g sr sc) - nat n) (cell g sr sc)"
    and "\<And>r c. in_bounds r c \<Longrightarrow> (r, c) \<noteq> (sr, sc) \<Longrightarrow> (r, c) \<noteq> (er, ec) \<Longrightarrow>
           cell (snd (transfer g (sr, sc) (er, ec) n)) r c = cell g r c"
proof -
  from check_move_count [OF assms(4)]
  have n: "0 \<le> n" and z: "n = 0 \<longleftrightarrow> sr = er \<and> sc = ec" by simp_all
  show "fst (transfer g (sr, sc) (er, ec) n) = None"
    using assms n z by (cases "n = 0") (simp_all add: transfer_pass transfer_move)
  show "board_ok (snd (transfer g (sr, sc) (er, ec) n))"
    using assms n z
    by (cases "n = 0") (simp_all add: transfer_pass transfer_move board_ok_set_data)
  show "players (snd (transfer g (sr, sc) (er, ec) n)) = players g"
    using assms n z by (cases "n = 0") (simp_all add: transfer_pass transfer_move)
  show "player_turn (snd (transfer g (sr, sc) (er, ec) n)) = player_turn g"
    using assms n z by (cases "n = 0") (simp_all add: transfer_pass transfer_move)
  show "first_player (snd (transfer g (sr, sc) (er, ec) n)) = first_player g"
    using assms n z by (cases "n = 0") (simp_all add: transfer_pass transfer_move)
  show "second_player (snd (transfer g (sr, sc) (er, ec) n)) = second_player g"
    using assms n z by (cases "n = 0") (simp_all add: transfer_pass transfer_move)
  show "cell (snd (transfer g (sr, sc) (er, ec) n)) sr sc
           = take (length (cell g sr sc) - nat n) (cell g sr sc)"
    using assms n z
    by (cases "n = 0")
       (auto simp: transfer_pass transfer_move board_ok_set_data cell_set_data)
  show "cell (snd (transfer g (sr, sc) (er, ec) n)) er ec
           = cell g er ec @ drop (length (cell g sr sc) - nat n) (cell g sr sc)"
    using assms n z
    by (cases "n = 0")
       (auto simp: transfer_pass transfer_move board_ok_set_data cell_set_data)
  show "\<And>r c. in_bounds r c \<Longrightarrow> (r, c) \<noteq> (sr, sc) \<Longrightarrow> (r, c) \<noteq> (er, ec) \<Longrightarrow>
           cell (snd (transfer g (sr, sc) (er, ec) n)) r c = cell g r c"
    using assms n z
    by (cases "n = 0")
       (auto simp: transfer_pass transfer_move board_ok_set_data cell_set_data)
qed

lemma move_piece_unknown:
  "players g player_name = None \<Longrightarrow>
   move_piece g player_name move_from move_to num_pieces = (Inl KeyError, g)"
  by (simp add: move_piece_def split: prod.splits)

lemma move_piece_reject:
  "board_ok g \<Longrightarrow> players g player_name = Some pl \<Longrightarrow>
   player_turn g \<noteq> Some player_name
   \<or> \<not> in_bounds sr sc \<or> \<not> in_bounds er ec
   \<or> int (length (cell g sr sc)) < n
   \<or> \<not> check_move sr sc er ec n
   \<or> (cell g sr sc \<noteq> [] \<and> last (cell g sr sc) \<noteq> piece (get_player g pl)) \<Longrightarrow>
   move_piece g player_name (sr, sc) (er, ec) n = (Inr PyFalse, g)"
  by (auto simp: move_piece_def check_position_in_bounds queue_at_cell get_length_def
        display_top_def py_index_last)

lemma move_piece_empty:
  "board_ok g \<Longrightarrow> players g player_name = Some pl \<Longrightarrow> player_turn g = Some player_name \<Longrightarrow>
   in_bounds sr sc \<Longrightarrow> in_bounds er ec \<Longrightarrow> n \<le> int (length (cell g sr sc)) \<Longrightarrow>
   check_move sr sc er ec n \<Longrightarrow> cell g sr sc = [] \<Longrightarrow>
   move_piece g player_name (sr, sc) (er, ec) n = (Inl IndexError, g)"
  by (simp add: move_piece_def check_position_in_bounds queue_at_cell get_length_def
        display_top_def py_index_Nil)

lemma move_piece_accept:
  assumes "board_ok g" and "players g player_name = Some pl"
    and "player_turn g = Some player_name"
    and "in_bounds sr sc" and "in_bounds er ec" and "n \<le> int (length (cell g sr sc))"
    and "check_move sr sc er ec n"
    and "cell g sr sc \<noteq> []" and "last (cell g sr sc) = piece (get_player g pl)"
  shows "move_piece g player_name (sr, sc) (er, ec) n =
     finish_move
       (shed (snd (transfer g (sr, sc) (er, ec) n)) pl er ec
          (length (cell (snd (transfer g (sr, sc) (er, ec) n)) er ec) - 5))
       pl"
proof -
  note tr = transfer_result [OF assms(1,4,5,7,6)]
  obtain g2 where t: "transfer g (sr, sc) (er, ec) n = (None, g2)"
    using tr(1) by (cases "transfer g (sr, sc) (er, ec) n") auto
  let ?g3 = "shed g2 pl er ec (length (cell g2 er ec) - 5)"
  have ok2: "board_ok g2" and pl2: "players g2 player_name = Some pl"
    using tr(2,3) assms(2) by (simp_all add: t)
  have rp: "remove_pieces g2 player_name er ec = (None, ?g3)"
    using ok2 assms(5) pl2 by (rule remove_pieces_shed)
  have ok3: "board_ok (switch_turns ?g3)"
    using ok2 assms(5) by (simp add: board_ok_shed)
  have cw: "check_win (switch_turns ?g3) player_name = Inr (win_condition (switch_turns ?g3) pl)"
    using ok3 by (rule check_win_eq) (simp add: pl2)
  show ?thesis
    using assms(1-9)
    by (simp add: move_piece_def check_position_in_bounds queue_at_cell get_length_def
          display_top_def py_index_last t rp cw finish_move_def Let_def)
qed

section \<open>The outcomes of a call\<close>

lemma board_ok_init: "board_ok (FocusGame_init player_a player_b)"
  by (simp add: FocusGame_init_def board_ok_def Let_def Queue_init_def)

lemma start_facts:
  "board_ok start"
  "players start ''A'' = Some First"
  "players start ''B'' = Some Second"
  "players start ''Zed'' = None"
  "player_turn start = Some ''A''"
  "get_player start First = \<lparr>name = ''A'', piece = ''R'', reserve = 0, captured = 0\<rparr>"
  "get_player start Second = \<lparr>name = ''B'', piece = ''G'', reserve = 0, captured = 0\<rparr>"
  "cell start 0 0 = [''R'']"
  "cell start 0 1 = [''R'']"
  by (simp_all add: start_def board_ok_init)
     (simp_all add: FocusGame_init_def Player_init_def Queue_init_def Let_def get_player_def
        cell_def)

lemma in_bounds_simps [simp]:
  "in_bounds 0 0" "in_bounds 0 1" "\<not> in_bounds 6 0"
  by (simp_all add: in_bounds_def)

lemma move_piece_outcomes:
  assumes "board_ok g"
  shows "move_piece g player_name (sr, sc) (er, ec) n = (Inl KeyError, g)
       \<or> move_piece g player_name (sr, sc) (er, ec) n = (Inl IndexError, g)
       \<or> move_piece g player_name (sr, sc) (er, ec) n = (Inr PyFalse, g)
       \<or> (\<exists>pl. players g player_name = Some pl \<and> player_turn g = Some player_name
             \<and> in_bounds sr sc \<and> in_bounds er ec \<and> n \<le> int (length (cell g sr sc))
             \<and> check_move sr sc er ec n \<and> cell g sr sc \<noteq> []
             \<and> last (cell g sr sc) = piece (get_player g pl)
             \<and> move_piece g player_name (sr, sc) (er, ec) n =
                 finish_move
                   (shed (snd (transfer g (sr, sc) (er, ec) n)) pl er ec
                      (length (cell (snd (transfer g (sr, sc) (er, ec) n)) er ec) - 5))
                   pl)"
proof (cases "players g player_name")
  case None
  then show ?thesis by (simp add: move_piece_unknown)
next
  case (Some pl)
  show ?thesis
  proof (cases "player_turn g \<noteq> Some player_name
      \<or> \<not> in_bounds sr sc \<or> \<not> in_bounds er ec
      \<or> int (length (cell g sr sc)) < n
      \<or> \<not> check_move sr sc er ec n
      \<or> (cell g sr sc \<noteq> [] \<and> last (cell g sr sc) \<noteq> piece (get_player g pl))")
    case True
    from move_piece_reject [OF assms Some True] show ?thesis by simp
  next
    case False
    show ?thesis
    proof (cases "cell g sr sc = []")
      case True
      with False assms Some show ?thesis by (simp add: move_piece_empty)
    next
      case ne: False
      with False have acc: "player_turn g = Some player_name" "in_bounds sr sc"
        "in_bounds er ec" "n \<le> int (length (cell g sr sc))" "check_move sr sc er ec n"
        "last (cell g sr sc) = piece (get_player g pl)"
        by auto
      from move_piece_accept [OF assms Some acc(1-5) ne acc(6)] Some acc ne
      show ?thesis by blast
    qed
  qed
qed

lemma fst_finish_move:
  "fst (finish_move g pl) = Inr (PyStr ''Wins'')
   \<or> fst (finish_move g pl) = Inr (PyStr ''successfully moved'')"
  by (simp add: finish_move_def Let_def)

lemma reserved_move_outcomes:
  assumes "board_ok g"
  shows "reserved_move g player_name (row, column) = (Inl KeyError, g)
       \<or> reserved_move g player_name (row, column) = (Inr PyFalse, g)
       \<or> (\<exists>pl. players g player_name = Some pl \<and> player_turn g = Some player_name
             \<and> 0 < reserve (get_player g pl) \<and> in_bounds row column
             \<and> reserved_move g player_name (row, column) =
                 (Inr PyNone,
                  switch_turns
                    (shed (upd_player
                             (set_data g row column
                                (cell g row column @ [piece (get_player g pl)]))
                             pl remove_reserved)
                       pl row column (length (cell g row column) + 1 - 5))))"
proof (cases "players g player_name")
  case None
  then show ?thesis by (simp add: reserved_move_unknown)
next
  case (Some pl)
  show ?thesis
  proof (cases "player_turn g \<noteq> Some player_name \<or> reserve (get_player g pl) \<le> 0
      \<or> \<not> in_bounds row column")
    case True
    from reserved_move_reject [OF assms Some True] show ?thesis by simp
  next
    case False
    then have acc: "player_turn g = Some player_name" "0 < reserve (get_player g pl)"
      "in_bounds row column" by auto
    from reserved_move_accept [OF assms Some acc] Some acc show ?thesis by blast
  qed
qed

text \<open>
  Claim C6. On the board of a game, a call of \<^verbatim>\<open>reserved_move\<close> or \<^verbatim>\<open>move_piece\<close>
  in which a precondition fails (the player does not hold the turn, the player has no
  reserve, a position is off the board, the count exceeds the length of the starting stack,
  the move is not a straight line of exactly the count, the top piece of the starting stack
  is not the player's) signals failure and returns the state it was given: it returns
  \<^verbatim>\<open>False\<close> when the name is one of the players, and raises \<^verbatim>\<open>KeyError\<close> when the
  name is not known. More generally every call that does not report a success, raised
  errors included, leaves the whole state (board, counters, turn) as it was.
\<close>

theorem rejection_leaves_state:
  assumes "board_ok g"
  shows "(player_turn g \<noteq> Some player_name
          \<or> (\<exists>pl. players g player_name = Some pl \<and> reserve (get_player g pl) \<le> 0)
          \<or> \<not> in_bounds row column
          \<longrightarrow> reserved_move g player_name (row, column)
                = (if players g player_name = None then Inl KeyError else Inr PyFalse, g))
       \<and> (player_turn g \<noteq> Some player_name
          \<or> \<not> in_bounds sr sc \<or> \<not> in_bounds er ec
          \<or> int (length (cell g sr sc)) < n
          \<or> \<not> ((sr = er \<and> \<bar>sc - ec\<bar> = n) \<or> (sc = ec \<and> \<bar>sr - er\<bar> = n))
          \<or> (\<exists>pl. players g player_name = Some pl \<and> cell g sr sc \<noteq> []
                 \<and> last (cell g sr sc) \<noteq> piece (get_player g pl))
          \<longrightarrow> move_piece g player_name (sr, sc) (er, ec) n
                = (if players g player_name = None then Inl KeyError else Inr PyFalse, g))
       \<and> (fst (reserved_move g player_name position) \<noteq> Inr PyNone
          \<longrightarrow> snd (reserved_move g player_name position) = g)
       \<and> (fst (move_piece g player_name move_from move_to n) \<noteq> Inr (PyStr ''Wins'')
          \<and> fst (move_piece g player_name move_from move_to n)
               \<noteq> Inr (PyStr ''successfully moved'')
          \<longrightarrow> snd (move_piece g player_name move_from move_to n) = g)"
proof (intro conjI impI)
  assume "player_turn g \<noteq> Some player_name
          \<or> (\<exists>pl. players g player_name = Some pl \<and> reserve (get_player g pl) \<le> 0)
          \<or> \<not> in_bounds row column"
  then show "reserved_move g player_name (row, column)
                = (if players g player_name = None then Inl KeyError else Inr PyFalse, g)"
    using assms
    by (cases "players g player_name")
       (auto simp: reserved_move_unknown reserved_move_reject)
next
  assume "player_turn g \<noteq> Some player_name
          \<or> \<not> in_bounds sr sc \<or> \<not> in_bounds er ec
          \<or> int (length (cell g sr sc)) < n
          \<or> \<not> ((sr = er \<and> \<bar>sc - ec\<bar> = n) \<or> (sc = ec \<and> \<bar>sr - er\<bar> = n))
          \<or> (\<exists>pl. players g player_name = Some pl \<and> cell g sr sc \<noteq> []
                 \<and> last (cell g sr sc) \<noteq> piece (get_player g pl))"
  then have "player_turn g \<noteq> Some player_name
          \<or> \<not> in_bounds sr sc \<or> \<not> in_bounds er ec
          \<or> int (length (cell g sr sc)) < n
          \<or> \<not> check_move sr sc er ec n
          \<or> (\<exists>pl. players g player_name = Some pl \<and> cell g sr sc \<noteq> []
                 \<and> last (cell g sr sc) \<noteq> piece (get_player g pl))"
    by (auto simp: check_move_def)
  then show "move_piece g player_name (sr, sc) (er, ec) n
                = (if players g player_name = None then Inl KeyError else Inr PyFalse, g)"
    using assms
    by (cases "players g player_name")
       (auto simp: move_piece_unknown move_piece_reject)
next
  assume ns: "fst (reserved_move g player_name position) \<noteq> Inr PyNone"
  obtain row column where p: "position = (row, column)" by (cases position)
  from reserved_move_outcomes [OF assms, of player_name row column] ns
  show "snd (reserved_move g player_name position) = g"
    unfolding p by auto
next
  assume ns: "fst (move_piece g player_name move_from move_to n) \<noteq> Inr (PyStr ''Wins'')
          \<and> fst (move_piece g player_name move_from move_to n)
               \<noteq> Inr (PyStr ''successfully moved'')"
  obtain sr sc where f: "move_from = (sr, sc)" by (cases move_from)
  obtain er ec where t: "move_to = (er, ec)" by (cases move_to)
  from move_piece_outcomes [OF assms, of player_name sr sc er ec n] ns
  show "snd (move_piece g player_name move_from move_to n) = g"
    unfolding f t by (auto simp: finish_move_def Let_def split: if_splits)
qed


theorem rejection_leaves_state_witness:
  "board_ok start \<and> player_turn start \<noteq> Some ''B''
   \<and> reserved_move start ''B'' (0, 0) = (Inr PyFalse, start)
   \<and> move_piece start ''B'' (0, 0) (0, 1) 1 = (Inr PyFalse, start)"
  using rejection_leaves_state [OF start_facts(1), where player_name = "''B''"
      and row = 0 and column = 0 and sr = 0 and sc = 0 and er = 0 and ec = 1 and n = 1]
  by (simp add: start_facts)

text \<open>
  Claim C7. The claim says that no call raises. In a new game \<^verbatim>\<open>reserved_move\<close> and
  \<^verbatim>\<open>move_piece\<close> raise \<^verbatim>\<open>KeyError\<close> for a name that is not a player, because the
  player is looked up before the turn is compared; \<^verbatim>\<open>show_pieces\<close> raises
  \<^verbatim>\<open>IndexError\<close> for a row off the board, since it does not check the position; and
  \<^verbatim>\<open>move_piece\<close> raises \<^verbatim>\<open>IndexError\<close> for a known player who moves zero pieces from
  an empty cell to itself. Only \<^verbatim>\<open>show_reserve\<close> and \<^verbatim>\<open>show_captured\<close> answer 0 for
  an unknown name.
\<close>

theorem unknown_name_raises:
  "reserved_move start ''Zed'' (0, 0) = (Inl KeyError, start)
   \<and> move_piece start ''Zed'' (0, 0) (0, 1) 1 = (Inl KeyError, start)
   \<and> show_pieces start (6, 0) = Inl IndexError
   \<and> show_reserve start ''Zed'' = 0
   \<and> fst (move_piece (snd (move_piece start ''A'' (0, 0) (0, 1) 1)) ''B'' (0, 0) (0, 0) 0)
       = Inl IndexError"
proof -
  have 1: "reserved_move start ''Zed'' (0, 0) = (Inl KeyError, start)"
    by (simp add: reserved_move_unknown start_facts)
  have 2: "move_piece start ''Zed'' (0, 0) (0, 1) 1 = (Inl KeyError, start)"
    by (simp add: move_piece_unknown start_facts)
  have 3: "show_pieces start (6, 0) = Inl IndexError"
    by (simp add: show_pieces_def queue_at_def py_index_def norm_index_def start_def
          FocusGame_init_def Let_def)
  have 4: "show_reserve start ''Zed'' = 0"
    by (simp add: show_reserve_def start_facts)
  have 5: "fst (move_piece (snd (move_piece start ''A'' (0, 0) (0, 1) 1)) ''B'' (0, 0) (0, 0) 0)
       = Inl IndexError"
    unfolding start_def by code_simp
  from 1 2 3 4 5 show ?thesis by blast
qed

theorem unknown_name_raises_witness:
  "fst (reserved_move start ''Zed'' (0, 0)) \<noteq> Inr PyFalse
   \<and> fst (move_piece start ''Zed'' (0, 0) (0, 1) 1) \<noteq> Inr PyFalse
   \<and> show_pieces start (6, 0) \<noteq> Inr []"
  using unknown_name_raises by simp

text \<open>
  Claim C3. The claim says that a move of zero pieces is rejected with no change of the
  state. In a new game the first player moves zero pieces from the corner to the corner
  itself: the call reports a successful move and the turn passes to the second player,
  with the board as it was.
\<close>

theorem zero_count_move_accepted:
  "fst (move_piece start ''A'' (0, 0) (0, 0) 0) = Inr (PyStr ''successfully moved'')
   \<and> player_turn start = Some ''A''
   \<and> player_turn (snd (move_piece start ''A'' (0, 0) (0, 0) 0)) = Some ''B''
   \<and> game_board (snd (move_piece start ''A'' (0, 0) (0, 0) 0)) = game_board start"
  unfolding start_def by code_simp

theorem zero_count_move_accepted_witness:
  "fst (move_piece start ''A'' (0, 0) (0, 0) 0) \<noteq> Inr PyFalse
   \<and> player_turn (snd (move_piece start ''A'' (0, 0) (0, 0) 0)) \<noteq> player_turn start"
  using zero_count_move_accepted by simp

text \<open>
  Claim C9. A new game has the 36 cells of the starting layout, each a stack of one piece,
  with R for the symbol the layout writes X and G for the symbol it writes O; both players
  have no reserve and no captured pieces; the turn is the name of the first player; and a
  second player with a different name cannot move first: every \<^verbatim>\<open>reserved_move\<close> and
  every \<^verbatim>\<open>move_piece\<close> under the second name returns \<^verbatim>\<open>False\<close> and leaves the state.
\<close>

theorem initial_state:
  "let g = FocusGame_init (na, pa) (nb, pb); sx = ''R''; so = ''G''
   in game_board g =
        [[[sx], [sx], [so], [so], [sx], [sx]],
         [[so], [so], [sx], [sx], [so], [so]],
         [[sx], [sx], [so], [so], [sx], [sx]],
         [[so], [so], [sx], [sx], [so], [so]],
         [[sx], [sx], [so], [so], [sx], [sx]],
         [[so], [so], [sx], [sx], [so], [so]]]
    \<and> list_all (list_all (\<lambda>q. length q = 1)) (game_board g)
    \<and> length (concat (game_board g)) = 36
    \<and> first_player g = \<lparr>name = na, piece = pa, reserve = 0, captured = 0\<rparr>
    \<and> second_player g = \<lparr>name = nb, piece = pb, reserve = 0, captured = 0\<rparr>
    \<and> show_reserve g na = 0 \<and> show_captured g na = 0
    \<and> show_reserve g nb = 0 \<and> show_captured g nb = 0
    \<and> get_player_turn g = Some na
    \<and> (nb \<noteq> na \<longrightarrow>
          (\<forall>position. reserved_move g nb position = (Inr PyFalse, g))
          \<and> (\<forall>move_from move_to num_pieces.
                 move_piece g nb move_from move_to num_pieces = (Inr PyFalse, g)))"
proof -
  let ?g = "FocusGame_init (na, pa) (nb, pb)"
  have b: "game_board ?g =
        [[[''R''], [''R''], [''G''], [''G''], [''R''], [''R'']],
         [[''G''], [''G''], [''R''], [''R''], [''G''], [''G'']],
         [[''R''], [''R''], [''G''], [''G''], [''R''], [''R'']],
         [[''G''], [''G''], [''R''], [''R''], [''G''], [''G'']],
         [[''R''], [''R''], [''G''], [''G''], [''R''], [''R'']],
         [[''G''], [''G''], [''R''], [''R''], [''G''], [''G'']]]"
    by (simp add: FocusGame_init_def Let_def Queue_init_def)
  have p: "first_player ?g = \<lparr>name = na, piece = pa, reserve = 0, captured = 0\<rparr>"
    "second_player ?g = \<lparr>name = nb, piece = pb, reserve = 0, captured = 0\<rparr>"
    by (simp_all add: FocusGame_init_def Let_def Player_init_def)
  have t: "player_turn ?g = Some na"
    by (simp add: FocusGame_init_def Let_def Player_init_def)
  have d: "players ?g nb = Some Second" "players ?g na = Some (if na = nb then Second else First)"
    by (simp_all add: FocusGame_init_def Let_def Player_init_def)
  have q: "show_reserve ?g na = 0" "show_captured ?g na = 0"
    "show_reserve ?g nb = 0" "show_captured ?g nb = 0"
    by (simp_all add: show_reserve_def show_captured_def get_player_def FocusGame_init_def
          Let_def Player_init_def)
  have r: "nb \<noteq> na \<Longrightarrow> reserved_move ?g nb position = (Inr PyFalse, ?g)" for position
    by (cases position) (simp add: reserved_move_reject [OF board_ok_init d(1)] t)
  have m: "nb \<noteq> na \<Longrightarrow> move_piece ?g nb move_from move_to num_pieces = (Inr PyFalse, ?g)"
    for move_from move_to num_pieces
    by (cases move_from; cases move_to) (simp add: move_piece_reject [OF board_ok_init d(1)] t)
  show ?thesis
    unfolding Let_def get_player_turn_def
    using b p t q r m by simp
qed

theorem initial_state_witness:
  "''Bob'' \<noteq> ''Alice''
   \<and> get_player_turn (FocusGame_init (''Alice'', ''R'') (''Bob'', ''G'')) = Some ''Alice''
   \<and> reserved_move (FocusGame_init (''Alice'', ''R'') (''Bob'', ''G'')) ''Bob'' (0, 0)
       = (Inr PyFalse, FocusGame_init (''Alice'', ''R'') (''Bob'', ''G''))
   \<and> move_piece (FocusGame_init (''Alice'', ''R'') (''Bob'', ''G'')) ''Bob'' (1, 0) (1, 1) 1
       = (Inr PyFalse, FocusGame_init (''Alice'', ''R'') (''Bob'', ''G''))"
  using initial_state [of "''Alice''" "''R''" "''Bob''" "''G''"]
  by (simp add: Let_def)

section \<open>The end of a move\<close>

lemma win_condition_turn [simp]:
  "win_condition (g\<lparr>player_turn := x\<rparr>) pl = win_condition g pl"
  by (simp add: win_condition_def get_player_def cell_def split: pref.splits)

lemma finish_move_views [simp]:
  "game_board (snd (finish_move g pl)) = game_board g"
  "players (snd (finish_move g pl)) = players g"
  "first_player (snd (finish_move g pl)) = first_player g"
  "second_player (snd (finish_move g pl)) = second_player g"
  by (simp_all add: finish_move_def Let_def)

lemma finish_move_cell [simp]:
  "cell (snd (finish_move g pl)) row column = cell g row column"
  "get_player (snd (finish_move g pl)) r = get_player g r"
  "board_ok (snd (finish_move g pl)) = board_ok g"
  by (simp_all add: cell_def get_player_def board_ok_def split: pref.splits)

lemma finish_move_win:
  "(fst (finish_move g pl) = Inr (PyStr ''Wins'')) = win_condition (snd (finish_move g pl)) pl"
  "(player_turn (snd (finish_move g pl)) = None) = win_condition (snd (finish_move g pl)) pl"
  "(fst (finish_move g pl) = Inr (PyStr ''successfully moved''))
     = (\<not> win_condition (snd (finish_move g pl)) pl)"
  by (simp_all add: finish_move_def Let_def player_turn_switch_turns)

lemma move_piece_success:
  assumes "board_ok g"
    and "fst (move_piece g player_name (sr, sc) (er, ec) n) = Inr (PyStr ''Wins'')
       \<or> fst (move_piece g player_name (sr, sc) (er, ec) n) = Inr (PyStr ''successfully moved'')"
  obtains pl where "players g player_name = Some pl" and "player_turn g = Some player_name"
    and "in_bounds sr sc" and "in_bounds er ec" and "n \<le> int (length (cell g sr sc))"
    and "check_move sr sc er ec n" and "cell g sr sc \<noteq> []"
    and "last (cell g sr sc) = piece (get_player g pl)"
    and "move_piece g player_name (sr, sc) (er, ec) n =
           finish_move
             (shed (snd (transfer g (sr, sc) (er, ec) n)) pl er ec
                (length (cell (snd (transfer g (sr, sc) (er, ec) n)) er ec) - 5))
             pl"
  using move_piece_outcomes [OF assms(1), of player_name sr sc er ec n] assms(2)
  by auto

text \<open>
  The geometry every move that is carried out has: a straight line, along the row or along
  the column, of exactly as many cells as pieces are moved. Only the count 0 is not
  excluded by it.
\<close>

lemma carried_out_move_is_straight:
  assumes "board_ok g"
    and "fst (move_piece g player_name (sr, sc) (er, ec) n) = Inr (PyStr ''Wins'')
       \<or> fst (move_piece g player_name (sr, sc) (er, ec) n) = Inr (PyStr ''successfully moved'')"
  shows "(sr = er \<and> \<bar>sc - ec\<bar> = n) \<or> (sc = ec \<and> \<bar>sr - er\<bar> = n)"
proof -
  from assms have "check_move sr sc er ec n" by (rule move_piece_success)
  then show ?thesis by (auto simp: check_move_def split: if_splits)
qed

section \<open>Conservation of the pieces\<close>

lemma sum_list_map_update:
  fixes f :: "'a \<Rightarrow> nat"
  shows "i < length xs \<Longrightarrow>
    sum_list (map f (xs[i := v])) + f (xs ! i) = sum_list (map f xs) + f v"
  by (induction xs arbitrary: i) (auto split: nat.splits)

lemma length_concat_concat:
  "length (concat (concat xsss)) = sum_list (map (\<lambda>r. sum_list (map length r)) xsss)"
  by (induction xsss) (simp_all add: length_concat)

lemma pieces_on_board_sum:
  "pieces_on_board g = sum_list (map (\<lambda>r. sum_list (map length r)) (game_board g))"
  by (simp add: pieces_on_board_def length_concat_concat)

lemma pieces_set_data:
  assumes "board_ok g" and "in_bounds row column"
  shows "int (pieces_on_board (set_data g row column d))
       = int (pieces_on_board g) - int (length (cell g row column)) + int (length d)"
proof -
  let ?b = "game_board g"
  let ?r = "?b ! nat row"
  let ?f = "\<lambda>r. sum_list (map length r)"
  from in_bounds_nat [OF assms(2)] assms(1)
  have i: "nat row < length ?b" and j: "nat column < length ?r"
    by (simp_all add: board_ok_def board_ok_row [OF assms(1)])
  have 1: "sum_list (map ?f (?b[nat row := ?r[nat column := d]])) + ?f ?r
      = sum_list (map ?f ?b) + ?f (?r[nat column := d])"
    using i by (rule sum_list_map_update)
  have 2: "?f (?r[nat column := d]) + length (?r ! nat column) = ?f ?r + length d"
    using j by (rule sum_list_map_update)
  from 1 2 show ?thesis
    unfolding pieces_on_board_sum set_data_board [OF assms] cell_def by linarith
qed

lemma pieces_upd_player [simp]: "pieces_on_board (upd_player g r f) = pieces_on_board g"
  by (simp add: pieces_on_board_def)

lemma total_upd_player:
  "total_pieces (upd_player g r f)
     = total_pieces g
       - (reserve (get_player g r) + captured (get_player g r))
       + (reserve (f (get_player g r)) + captured (f (get_player g r)))"
  by (cases r) (simp_all add: total_pieces_def upd_player_def get_player_def pieces_on_board_def)

lemma total_set_data:
  "board_ok g \<Longrightarrow> in_bounds row column \<Longrightarrow>
   total_pieces (set_data g row column d)
     = total_pieces g - int (length (cell g row column)) + int (length d)"
  by (simp add: total_pieces_def pieces_set_data)

lemma length_filter_both:
  "int (length (filter P xs)) + int (length (filter (\<lambda>x. \<not> P x) xs)) = int (length xs)"
  using sum_length_filter_compl [of P xs] by linarith

lemma total_shed:
  assumes "board_ok g" and "in_bounds row column" and "k \<le> length (cell g row column)"
  shows "total_pieces (shed g rp row column k) = total_pieces g"
proof -
  have "int (length (filter (\<lambda>x. x = piece (get_player g rp)) (take k (cell g row column))))
      + int (length (filter (\<lambda>x. x \<noteq> piece (get_player g rp)) (take k (cell g row column))))
      = int k"
    using length_filter_both [of "\<lambda>x. x = piece (get_player g rp)" "take k (cell g row column)"]
      assms(3) by simp
  then show ?thesis
    using assms
    by (simp add: shed_def Let_def total_upd_player total_set_data)
qed

lemma total_switch_turns [simp]: "total_pieces (switch_turns g) = total_pieces g"
  by (simp add: total_pieces_def pieces_on_board_def)

lemma total_finish_move [simp]: "total_pieces (snd (finish_move g pl)) = total_pieces g"
  by (simp add: total_pieces_def pieces_on_board_def)

lemma total_transfer:
  assumes "board_ok g" and "in_bounds sr sc" and "in_bounds er ec"
    and "check_move sr sc er ec n" and "n \<le> int (length (cell g sr sc))"
  shows "total_pieces (snd (transfer g (sr, sc) (er, ec) n)) = total_pieces g"
proof (cases "n = 0")
  case True
  with check_move_count [OF assms(4)] assms show ?thesis by (simp add: transfer_pass)
next
  case False
  with check_move_count [OF assms(4)] have n: "0 < n" and d: "\<not> (sr = er \<and> sc = ec)" by auto
  show ?thesis
    unfolding transfer_move [OF assms(1-3) d n assms(5)] snd_conv
    using assms n d
    by (auto simp: total_set_data board_ok_set_data cell_set_data)
qed

lemma reserved_move_keeps:
  assumes "board_ok g"
  shows "board_ok (snd (reserved_move g player_name position))
       \<and> total_pieces (snd (reserved_move g player_name position)) = total_pieces g"
proof -
  obtain row column where p: "position = (row, column)" by (cases position)
  from reserved_move_outcomes [OF assms, of player_name row column]
  show ?thesis
    unfolding p
  proof (elim disjE exE conjE)
    fix pl
    assume a: "in_bounds row column" "0 < reserve (get_player g pl)"
      and e: "reserved_move g player_name (row, column) =
        (Inr PyNone,
         switch_turns
           (shed (upd_player
                    (set_data g row column (cell g row column @ [piece (get_player g pl)]))
                    pl remove_reserved)
              pl row column (length (cell g row column) + 1 - 5)))"
    let ?g2 = "upd_player
                 (set_data g row column (cell g row column @ [piece (get_player g pl)]))
                 pl remove_reserved"
    have ok: "board_ok ?g2" using assms a by (simp add: board_ok_set_data)
    have c: "cell ?g2 row column = cell g row column @ [piece (get_player g pl)]"
      using assms a by (simp add: cell_set_data)
    have t2: "total_pieces ?g2 = total_pieces g"
      using assms a by (simp add: total_upd_player total_set_data remove_reserved_def)
    have "total_pieces (shed ?g2 pl row column (length (cell g row column) + 1 - 5))
        = total_pieces ?g2"
      using ok a(1) by (rule total_shed) (use assms a in \<open>simp add: cell_set_data\<close>)
    with t2 ok a(1) show "board_ok (snd (reserved_move g player_name (row, column)))
       \<and> total_pieces (snd (reserved_move g player_name (row, column))) = total_pieces g"
      unfolding e by (simp add: board_ok_shed)
  qed (use assms in simp_all)
qed

lemma move_piece_keeps:
  assumes "board_ok g"
  shows "board_ok (snd (move_piece g player_name move_from move_to n))
       \<and> total_pieces (snd (move_piece g player_name move_from move_to n)) = total_pieces g"
proof -
  obtain sr sc where f: "move_from = (sr, sc)" by (cases move_from)
  obtain er ec where t: "move_to = (er, ec)" by (cases move_to)
  from move_piece_outcomes [OF assms, of player_name sr sc er ec n]
  show ?thesis
    unfolding f t
  proof (elim disjE exE conjE)
    fix pl
    assume a: "in_bounds sr sc" "in_bounds er ec" "n \<le> int (length (cell g sr sc))"
        "check_move sr sc er ec n"
      and e: "move_piece g player_name (sr, sc) (er, ec) n =
        finish_move
          (shed (snd (transfer g (sr, sc) (er, ec) n)) pl er ec
             (length (cell (snd (transfer g (sr, sc) (er, ec) n)) er ec) - 5))
          pl"
    let ?b = "snd (transfer g (sr, sc) (er, ec) n)"
    note tr = transfer_result [OF assms a(1,2,4,3)]
    have "total_pieces (shed ?b pl er ec (length (cell ?b er ec) - 5)) = total_pieces ?b"
      using tr(2) a(2) by (rule total_shed) simp
    with total_transfer [OF assms a(1,2,4,3)] tr(2) a(2)
    show "board_ok (snd (move_piece g player_name (sr, sc) (er, ec) n))
       \<and> total_pieces (snd (move_piece g player_name (sr, sc) (er, ec) n)) = total_pieces g"
      unfolding e by (simp add: board_ok_shed)
  qed (use assms in simp_all)
qed

lemma total_init: "total_pieces (FocusGame_init player_a player_b) = 36"
  by (simp add: total_pieces_def pieces_on_board_def FocusGame_init_def Let_def Queue_init_def
        Player_init_def)

lemma reachable_invariant:
  "reachable g \<Longrightarrow> board_ok g \<and> total_pieces g = 36"
proof (induction rule: reachable.induct)
  case (constructed player_a player_b)
  show ?case by (simp add: board_ok_init total_init)
next
  case (after_reserved_move g player_name position)
  then show ?case using reserved_move_keeps [of g player_name position] by simp
next
  case (after_move_piece g player_name move_from move_to num_pieces)
  then show ?case using move_piece_keeps [of g player_name move_from move_to num_pieces] by simp
qed

text \<open>
  Claim C10. In every state reachable from a constructed game by calls of
  \<^verbatim>\<open>reserved_move\<close> and \<^verbatim>\<open>move_piece\<close>, the pieces on the board plus the reserve and
  captured counts of both players are 36.
\<close>

theorem piece_conservation:
  "reachable g \<Longrightarrow>
   int (length (concat (concat (game_board g))))
     + reserve (first_player g) + captured (first_player g)
     + reserve (second_player g) + captured (second_player g) = 36"
  using reachable_invariant [of g] by (simp add: total_pieces_def pieces_on_board_def)


lemma reachable_play: "reachable g \<Longrightarrow> reachable (play g ms)"
  by (induction g ms rule: play.induct) (simp_all add: after_move_piece)

lemma reachable_start: "reachable start"
  unfolding start_def by (rule constructed)

theorem piece_conservation_witness:
  "reachable (snd (reserved_move (play start build_up) ''A'' (3, 3)))
   \<and> int (length (concat (concat
        (game_board (snd (reserved_move (play start build_up) ''A'' (3, 3)))))))
     + reserve (first_player (snd (reserved_move (play start build_up) ''A'' (3, 3))))
     + captured (first_player (snd (reserved_move (play start build_up) ''A'' (3, 3))))
     + reserve (second_player (snd (reserved_move (play start build_up) ''A'' (3, 3))))
     + captured (second_player (snd (reserved_move (play start build_up) ''A'' (3, 3)))) = 36"
proof -
  have r: "reachable (snd (reserved_move (play start build_up) ''A'' (3, 3)))"
    by (intro after_reserved_move reachable_play reachable_start)
  from piece_conservation [OF r] r show ?thesis by (rule_tac conjI)
qed

lemma build_up_facts:
  "game_board (play start build_up) =
     [[[], [], [''G''], [], [''R''], [''R'']],
      [[''G''], [''G''], [], [], [''G''], [''G'']],
      [[''R''], [''R''], [''G''], [''G''], [''R''], [''R'']],
      [[''G''], [''G''], [], [''R'', ''R'', ''R'', ''R'', ''R''], [''G''], [''G'']],
      [[''R''], [''R''], [''G''], [''G''], [''R''], [''R'']],
      [[], [], [''R''], [''R'', ''G''], [''G''], [''G'', ''G'']]]"
  "player_turn (play start build_up) = Some ''A''"
  "show_reserve (play start build_up) ''A'' = 1"
  "fst (reserved_move (play start build_up) ''A'' (3, 3)) = Inr PyNone"
  "show_reserve (snd (reserved_move (play start build_up) ''A'' (3, 3))) ''A'' = 1"
  unfolding start_def build_up_def by code_simp+

section \<open>Winning\<close>

text \<open>
  Claim C2. \<^verbatim>\<open>check_win\<close> for a registered player answers exactly the win condition:
  at least 18 captured pieces and the player's symbol on top of every non-empty cell. A
  \<^verbatim>\<open>move_piece\<close> that is carried out evaluates it for the player who moved, on the state
  after the move: it reports the win outcome and sets the turn to \<^verbatim>\<open>None\<close> exactly when
  the condition holds, and reports the moved outcome, with a player's name as turn,
  otherwise. \<^verbatim>\<open>reserved_move\<close> never reports a win: it returns \<^verbatim>\<open>None\<close> or
  \<^verbatim>\<open>False\<close>, and after a placement the turn is a player's name, whatever the board.
\<close>

theorem win_rule:
  assumes "board_ok g" and "players g player_name = Some pl"
  shows "check_win g player_name = Inr (win_condition g pl)
       \<and> (let r = fst (move_piece g player_name move_from move_to n);
               g' = snd (move_piece g player_name move_from move_to n)
          in (r = Inr (PyStr ''Wins'') \<or> r = Inr (PyStr ''successfully moved'')
              \<longrightarrow> (r = Inr (PyStr ''Wins'') \<longleftrightarrow> win_condition g' pl)
                \<and> (player_turn g' = None \<longleftrightarrow> win_condition g' pl)))
       \<and> (let r = fst (reserved_move g player_name position);
               g' = snd (reserved_move g player_name position)
          in (r = Inr PyNone \<or> r = Inr PyFalse)
             \<and> (r = Inr PyNone \<longrightarrow> player_turn g' \<noteq> None))"
proof -
  obtain sr sc where f: "move_from = (sr, sc)" by (cases move_from)
  obtain er ec where t: "move_to = (er, ec)" by (cases move_to)
  obtain row column where p: "position = (row, column)" by (cases position)
  have 1: "check_win g player_name = Inr (win_condition g pl)"
    using assms by (rule check_win_eq)
  have 2: "(fst (move_piece g player_name move_from move_to n) = Inr (PyStr ''Wins'')
       \<longleftrightarrow> win_condition (snd (move_piece g player_name move_from move_to n)) pl)
     \<and> (player_turn (snd (move_piece g player_name move_from move_to n)) = None
       \<longleftrightarrow> win_condition (snd (move_piece g player_name move_from move_to n)) pl)"
    if s: "fst (move_piece g player_name move_from move_to n) = Inr (PyStr ''Wins'')
       \<or> fst (move_piece g player_name move_from move_to n) = Inr (PyStr ''successfully moved'')"
  proof -
    from s obtain pl' where k: "players g player_name = Some pl'"
      and m: "move_piece g player_name (sr, sc) (er, ec) n =
           finish_move
             (shed (snd (transfer g (sr, sc) (er, ec) n)) pl' er ec
                (length (cell (snd (transfer g (sr, sc) (er, ec) n)) er ec) - 5))
             pl'"
      unfolding f t by (rule move_piece_success [OF assms(1)])
    from k assms(2) have "pl' = pl" by simp
    with m show ?thesis unfolding f t by (simp add: finish_move_win)
  qed
  have 3: "(fst (reserved_move g player_name position) = Inr PyNone
        \<or> fst (reserved_move g player_name position) = Inr PyFalse)
      \<and> (fst (reserved_move g player_name position) = Inr PyNone
        \<longrightarrow> player_turn (snd (reserved_move g player_name position)) \<noteq> None)"
  proof (cases "player_turn g \<noteq> Some player_name \<or> reserve (get_player g pl) \<le> 0
      \<or> \<not> in_bounds row column")
    case True
    from reserved_move_reject [OF assms True] show ?thesis unfolding p by simp
  next
    case False
    then have acc: "player_turn g = Some player_name" "0 < reserve (get_player g pl)"
      "in_bounds row column" by auto
    from reserved_move_accept [OF assms acc] show ?thesis
      unfolding p by (simp add: player_turn_switch_turns)
  qed
  from 1 2 3 show ?thesis unfolding Let_def by blast
qed


lemma whole_game_facts:
  "game_board (play start whole_game) =
     [[[], [], [], [], [], []],
      [[], [], [''R''], [''R''], [], []],
      [[], [], [], [], [''R''], [''R'']],
      [[], [], [''R''], [''R''], [], []],
      [[''R''], [''R''], [], [], [''R''], [''R'']],
      [[''G'', ''G'', ''R'', ''G''], [], [], [''R''], [], [''R'', ''R'', ''R'', ''R'', ''R'']]]"
  "players (play start whole_game) ''A'' = Some First"
  "player_turn (play start whole_game) = Some ''A''"
  "get_player (play start whole_game) First
     = \<lparr>name = ''A'', piece = ''R'', reserve = 1, captured = 15\<rparr>"
  "fst (move_piece (play start whole_game) ''A'' (5, 5) (5, 0) 5) = Inr (PyStr ''Wins'')"
  "player_turn (snd (move_piece (play start whole_game) ''A'' (5, 5) (5, 0) 5)) = None"
  "fst (reserved_move (play start whole_game) ''A'' (3, 2)) = Inr PyNone"
  "player_turn (snd (reserved_move (play start whole_game) ''A'' (3, 2))) = Some ''B''"
  unfolding start_def whole_game_def by code_simp+

lemma board_ok_whole_game: "board_ok (play start whole_game)"
  using reachable_invariant [OF reachable_play [OF reachable_start]] by simp

theorem win_rule_witness:
  "board_ok (play start whole_game) \<and> players (play start whole_game) ''A'' = Some First
   \<and> check_win (play start whole_game) ''A'' = Inr False
   \<and> fst (move_piece (play start whole_game) ''A'' (5, 5) (5, 0) 5) = Inr (PyStr ''Wins'')
   \<and> win_condition (snd (move_piece (play start whole_game) ''A'' (5, 5) (5, 0) 5)) First
   \<and> player_turn (snd (move_piece (play start whole_game) ''A'' (5, 5) (5, 0) 5)) = None
   \<and> fst (reserved_move (play start whole_game) ''A'' (3, 2)) = Inr PyNone
   \<and> player_turn (snd (reserved_move (play start whole_game) ''A'' (3, 2))) = Some ''B''"
proof -
  have nw: "\<not> win_condition (play start whole_game) First"
    by (simp add: win_condition_def whole_game_facts)
  from win_rule [OF board_ok_whole_game whole_game_facts(2), of "(5, 5)" "(5, 0)" 5 "(3, 2)"] nw
  show ?thesis
    by (simp add: Let_def whole_game_facts board_ok_whole_game)
qed

section \<open>Moving pieces\<close>

text \<open>
  Claim C4. When \<^verbatim>\<open>move_piece\<close> carries a move out, the count is between 0 and the
  length of the starting stack. Before the height of the ending stack is looked at, the
  starting stack has lost its top \<open>n\<close> pieces and the ending stack is its former
  contents followed by those pieces in the same order, so the lengths have changed by
  exactly \<open>n\<close>. The final ending stack is what the height reduction leaves of that, of
  length the minimum of 5 and the length after the append; the final starting stack is
  the shortened one, and no other cell changes. A count of 0 is carried out only from a
  cell to itself: \<^verbatim>\<open>remove_items\<close> then takes the whole stack and \<^verbatim>\<open>add_items\<close> puts
  it back, so both stacks are as they were, which is what the statement says for 0.
\<close>

theorem move_transfer:
  assumes "board_ok g"
    and "fst (move_piece g player_name (sr, sc) (er, ec) n) = Inr (PyStr ''Wins'')
       \<or> fst (move_piece g player_name (sr, sc) (er, ec) n) = Inr (PyStr ''successfully moved'')"
  shows "let f = cell g sr sc;
             t = cell g er ec;
             b = snd (transfer g (sr, sc) (er, ec) n);
             g' = snd (move_piece g player_name (sr, sc) (er, ec) n)
         in 0 \<le> n \<and> n \<le> int (length f)
          \<and> fst (transfer g (sr, sc) (er, ec) n) = None
          \<and> cell b sr sc = take (length f - nat n) f
          \<and> cell b er ec = t @ drop (length f - nat n) f
          \<and> int (length (cell b sr sc)) = int (length f) - n
          \<and> int (length (cell b er ec)) = int (length t) + n
          \<and> cell g' er ec = drop (length (cell b er ec) - 5) (cell b er ec)
          \<and> length (cell g' er ec) = min 5 (length (cell b er ec))
          \<and> ((sr, sc) \<noteq> (er, ec) \<longrightarrow> cell g' sr sc = cell b sr sc)
          \<and> (\<forall>r c. in_bounds r c \<and> (r, c) \<noteq> (sr, sc) \<and> (r, c) \<noteq> (er, ec)
                \<longrightarrow> cell g' r c = cell g r c)"
proof -
  let ?b = "snd (transfer g (sr, sc) (er, ec) n)"
  from assms obtain pl where ib: "in_bounds sr sc" "in_bounds er ec"
    and le: "n \<le> int (length (cell g sr sc))" and cm: "check_move sr sc er ec n"
    and m: "move_piece g player_name (sr, sc) (er, ec) n =
           finish_move (shed ?b pl er ec (length (cell ?b er ec) - 5)) pl"
    by (rule move_piece_success)
  note tr = transfer_result [OF assms(1) ib cm le]
  from check_move_count [OF cm] have n0: "0 \<le> n" by simp
  have a: "cell ?b sr sc = take (length (cell g sr sc) - nat n) (cell g sr sc)"
    and b: "cell ?b er ec = cell g er ec @ drop (length (cell g sr sc) - nat n) (cell g sr sc)"
    by (rule tr(7), rule tr(8))
  have la: "int (length (cell ?b sr sc)) = int (length (cell g sr sc)) - n"
    unfolding a using n0 le by simp
  have lb: "int (length (cell ?b er ec)) = int (length (cell g er ec)) + n"
    unfolding b using n0 le by simp
  have c: "cell (snd (move_piece g player_name (sr, sc) (er, ec) n)) r c
      = (if r = er \<and> c = ec then drop (length (cell ?b er ec) - 5) (cell ?b er ec)
         else cell ?b r c)"
    if "in_bounds r c" for r c
    unfolding m using tr(2) ib(2) that by (simp add: cell_shed)
  have d: "cell (snd (move_piece g player_name (sr, sc) (er, ec) n)) er ec
      = drop (length (cell ?b er ec) - 5) (cell ?b er ec)"
    using c [OF ib(2)] by simp
  have e: "length (cell (snd (move_piece g player_name (sr, sc) (er, ec) n)) er ec)
      = min 5 (length (cell ?b er ec))"
    unfolding d by (simp add: min_def)
  have f: "(sr, sc) \<noteq> (er, ec)
      \<longrightarrow> cell (snd (move_piece g player_name (sr, sc) (er, ec) n)) sr sc = cell ?b sr sc"
    using c [OF ib(1)] by auto
  have h: "\<forall>r c. in_bounds r c \<and> (r, c) \<noteq> (sr, sc) \<and> (r, c) \<noteq> (er, ec)
      \<longrightarrow> cell (snd (move_piece g player_name (sr, sc) (er, ec) n)) r c = cell g r c"
    using c tr(9) by auto
  show ?thesis
    unfolding Let_def using n0 le tr(1) a b la lb d e f h by blast
qed

lemma first_move_facts:
  "fst (move_piece start ''A'' (0, 0) (0, 1) 1) = Inr (PyStr ''successfully moved'')"
  unfolding start_def by code_simp

theorem move_transfer_witness:
  "board_ok start
   \<and> fst (move_piece start ''A'' (0, 0) (0, 1) 1) = Inr (PyStr ''successfully moved'')
   \<and> cell (snd (move_piece start ''A'' (0, 0) (0, 1) 1)) 0 0 = []
   \<and> cell (snd (move_piece start ''A'' (0, 0) (0, 1) 1)) 0 1 = [''R'', ''R'']"
  using move_transfer [OF start_facts(1), of "''A''" 0 0 0 1 1]
  by (simp add: Let_def first_move_facts start_facts)

section \<open>Placing a piece from the reserve\<close>

lemma first_player_get: "first_player g = get_player g First"
  and second_player_get: "second_player g = get_player g Second"
  by (simp_all add: get_player_def)

lemma name_get_player_shed [simp]:
  "name (get_player (shed g rp row column k) r) = name (get_player g r)"
  "piece (get_player (shed g rp row column k) r) = piece (get_player g r)"
  by (simp_all add: get_player_shed)

lemma remove_reserved_fields [simp]:
  "name (remove_reserved p) = name p"
  "piece (remove_reserved p) = piece p"
  "captured (remove_reserved p) = captured p"
  "reserve (remove_reserved p) = (if 0 < reserve p then reserve p - 1 else reserve p)"
  by (simp_all add: remove_reserved_def)

text \<open>
  Claim C5, as the claim states it, fails: after the opening \<open>build_up\<close> player A holds
  one piece in reserve and places it on the stack of five R pieces at (3, 3). The placement
  is carried out, the piece at the bottom is A's own and comes back to the reserve, and the
  reserve count is 1 as before, not 0.
\<close>

theorem reserve_not_decreased:
  "reachable (play start build_up)
   \<and> fst (reserved_move (play start build_up) ''A'' (3, 3)) = Inr PyNone
   \<and> show_reserve (snd (reserved_move (play start build_up) ''A'' (3, 3))) ''A''
       \<noteq> show_reserve (play start build_up) ''A'' - 1"
  using reachable_play [OF reachable_start, of build_up]
  by (simp add: build_up_facts)

text \<open>
  Claim C5, amended. For a registered player \<^verbatim>\<open>reserved_move\<close> is carried out exactly
  when the player holds the turn, has a reserve above 0 and names a position on the board.
  Then the player's piece is on top of the target stack, which is the old stack with the
  piece appended and cut down to its top 5 pieces. The reserve is decremented by exactly 1
  and the height reduction then credits each removed piece to the same player: the reserve
  ends at the old count minus 1 plus the number of removed pieces of the player's own
  symbol, the captured count grows by the number of the others, and with fewer than 5
  pieces on the target before the placement the reserve is exactly one less. The turn
  passes to the other player, the other player and the other cells are unchanged.
\<close>

theorem reserved_move_placement:
  assumes "board_ok g" and "players g player_name = Some pl"
  shows "(fst (reserved_move g player_name (row, column)) = Inr PyNone
          \<longleftrightarrow> player_turn g = Some player_name \<and> 0 < reserve (get_player g pl)
              \<and> in_bounds row column)
       \<and> (fst (reserved_move g player_name (row, column)) = Inr PyNone \<longrightarrow>
           (let s = cell g row column;
                pc = piece (get_player g pl);
                k = length s + 1 - 5;
                removed = take k (s @ [pc]);
                g' = snd (reserved_move g player_name (row, column))
            in cell g' row column = drop k (s @ [pc])
             \<and> cell g' row column \<noteq> [] \<and> last (cell g' row column) = pc
             \<and> length (cell g' row column) = min 5 (length s + 1)
             \<and> reserve (get_player g' pl)
                 = reserve (get_player g pl) - 1 + int (length (filter (\<lambda>x. x = pc) removed))
             \<and> captured (get_player g' pl)
                 = captured (get_player g pl) + int (length (filter (\<lambda>x. x \<noteq> pc) removed))
             \<and> (length s < 5 \<longrightarrow>
                   reserve (get_player g' pl) = reserve (get_player g pl) - 1
                   \<and> captured (get_player g' pl) = captured (get_player g pl))
             \<and> player_turn g' =
                 Some (if player_name = name (first_player g)
                       then name (second_player g) else name (first_player g))
             \<and> (\<forall>r. r \<noteq> pl \<longrightarrow> get_player g' r = get_player g r)
             \<and> (\<forall>r c. in_bounds r c \<and> (r, c) \<noteq> (row, column) \<longrightarrow> cell g' r c = cell g r c)))"
proof (cases "player_turn g = Some player_name \<and> 0 < reserve (get_player g pl)
    \<and> in_bounds row column")
  case False
  then have "player_turn g \<noteq> Some player_name \<or> reserve (get_player g pl) \<le> 0
      \<or> \<not> in_bounds row column" by auto
  from reserved_move_reject [OF assms this] False show ?thesis by simp
next
  case True
  then have acc: "player_turn g = Some player_name" "0 < reserve (get_player g pl)"
    "in_bounds row column" by auto
  let ?s = "cell g row column"
  let ?pc = "piece (get_player g pl)"
  let ?k = "length ?s + 1 - 5"
  let ?g2 = "upd_player (set_data g row column (?s @ [?pc])) pl remove_reserved"
  let ?g3 = "shed ?g2 pl row column ?k"
  have e: "reserved_move g player_name (row, column) = (Inr PyNone, switch_turns ?g3)"
    using assms acc by (rule reserved_move_accept)
  have ok2: "board_ok ?g2" using assms acc by (simp add: board_ok_set_data)
  have c2: "cell ?g2 r c = (if r = row \<and> c = column then ?s @ [?pc] else cell g r c)"
    if "in_bounds r c" for r c
    using assms acc that by (simp add: cell_set_data)
  have p2: "get_player ?g2 r = (if r = pl then remove_reserved (get_player g pl) else get_player g r)"
    for r
    by (simp add: get_player_upd_player)
  have c3: "cell ?g3 r c = (if r = row \<and> c = column then drop ?k (?s @ [?pc]) else cell g r c)"
    if "in_bounds r c" for r c
    using ok2 acc(3) that c2 [OF that] c2 [OF acc(3)] by (simp add: cell_shed)
  have a: "cell ?g3 row column = drop ?k (?s @ [?pc])"
    using c3 [OF acc(3)] by simp
  have b: "cell ?g3 row column \<noteq> [] \<and> last (cell ?g3 row column) = ?pc
      \<and> length (cell ?g3 row column) = min 5 (length ?s + 1)"
    unfolding a by (auto simp: min_def)
  have r3: "reserve (get_player ?g3 pl)
      = reserve (get_player g pl) - 1
        + int (length (filter (\<lambda>x. x = ?pc) (take ?k (?s @ [?pc]))))"
    and k3: "captured (get_player ?g3 pl)
      = captured (get_player g pl)
        + int (length (filter (\<lambda>x. x \<noteq> ?pc) (take ?k (?s @ [?pc]))))"
    using acc(2) c2 [OF acc(3)] by (simp_all add: get_player_shed p2)
  have small: "length ?s < 5 \<longrightarrow>
      reserve (get_player ?g3 pl) = reserve (get_player g pl) - 1
      \<and> captured (get_player ?g3 pl) = captured (get_player g pl)"
    unfolding r3 k3 by simp
  have o3: "\<forall>r. r \<noteq> pl \<longrightarrow> get_player ?g3 r = get_player g r"
    by (simp add: get_player_shed p2)
  have n3: "name (first_player ?g3) = name (first_player g)"
    "name (second_player ?g3) = name (second_player g)"
    unfolding first_player_get second_player_get by (simp_all add: p2)
  have t3: "player_turn (switch_turns ?g3) =
      Some (if player_name = name (first_player g)
            then name (second_player g) else name (first_player g))"
    unfolding player_turn_switch_turns n3 using acc(1) by auto
  have d3: "\<forall>r c. in_bounds r c \<and> (r, c) \<noteq> (row, column) \<longrightarrow> cell ?g3 r c = cell g r c"
    using c3 by auto
  show ?thesis
    unfolding e fst_conv snd_conv Let_def
    using True a b r3 k3 small o3 t3 d3 by simp
qed


lemma build_up_state:
  "players (play start build_up) ''A'' = Some First"
  "cell (play start build_up) 3 3 = [''R'', ''R'', ''R'', ''R'', ''R'']"
  "get_player (play start build_up) First
     = \<lparr>name = ''A'', piece = ''R'', reserve = 1, captured = 1\<rparr>"
  "name (first_player (play start build_up)) = ''A''"
  "name (second_player (play start build_up)) = ''B''"
  unfolding start_def build_up_def by code_simp+

lemma board_ok_build_up: "board_ok (play start build_up)"
  using reachable_invariant [OF reachable_play [OF reachable_start]] by simp

theorem reserved_move_placement_witness:
  "board_ok (play start build_up) \<and> players (play start build_up) ''A'' = Some First
   \<and> fst (reserved_move (play start build_up) ''A'' (3, 3)) = Inr PyNone
   \<and> cell (snd (reserved_move (play start build_up) ''A'' (3, 3))) 3 3
       = [''R'', ''R'', ''R'', ''R'', ''R'']
   \<and> reserve (get_player (snd (reserved_move (play start build_up) ''A'' (3, 3))) First) = 1
   \<and> captured (get_player (snd (reserved_move (play start build_up) ''A'' (3, 3))) First) = 1
   \<and> player_turn (snd (reserved_move (play start build_up) ''A'' (3, 3))) = Some ''B''"
  using reserved_move_placement [OF board_ok_build_up build_up_state(1), of 3 3]
  by (simp add: Let_def build_up_state build_up_facts board_ok_build_up in_bounds_def)

section \<open>Whose turn it is\<close>

lemma reserved_move_turn:
  assumes "board_ok g"
  shows "name (first_player (snd (reserved_move g player_name position))) = name (first_player g)
       \<and> name (second_player (snd (reserved_move g player_name position)))
           = name (second_player g)
       \<and> player_turn (snd (reserved_move g player_name position))
           = (if fst (reserved_move g player_name position) = Inr PyNone
              then Some (if player_turn g = Some (name (first_player g))
                         then name (second_player g) else name (first_player g))
              else player_turn g)"
proof -
  obtain row column where p: "position = (row, column)" by (cases position)
  from reserved_move_outcomes [OF assms, of player_name row column]
  show ?thesis
    unfolding p
  proof (elim disjE exE conjE)
    fix pl
    assume e: "reserved_move g player_name (row, column) =
        (Inr PyNone,
         switch_turns
           (shed (upd_player
                    (set_data g row column (cell g row column @ [piece (get_player g pl)]))
                    pl remove_reserved)
              pl row column (length (cell g row column) + 1 - 5)))"
    show "name (first_player (snd (reserved_move g player_name (row, column))))
           = name (first_player g)
       \<and> name (second_player (snd (reserved_move g player_name (row, column))))
           = name (second_player g)
       \<and> player_turn (snd (reserved_move g player_name (row, column)))
           = (if fst (reserved_move g player_name (row, column)) = Inr PyNone
              then Some (if player_turn g = Some (name (first_player g))
                         then name (second_player g) else name (first_player g))
              else player_turn g)"
      unfolding e fst_conv snd_conv player_turn_switch_turns
      unfolding first_player_get second_player_get
      by (simp add: get_player_upd_player)
  qed simp_all
qed

lemma move_piece_turn:
  assumes "board_ok g"
  shows "name (first_player (snd (move_piece g player_name move_from move_to n)))
           = name (first_player g)
       \<and> name (second_player (snd (move_piece g player_name move_from move_to n)))
           = name (second_player g)
       \<and> player_turn (snd (move_piece g player_name move_from move_to n))
           = (if fst (move_piece g player_name move_from move_to n) = Inr (PyStr ''Wins'')
              then None
              else if fst (move_piece g player_name move_from move_to n)
                        = Inr (PyStr ''successfully moved'')
              then Some (if player_turn g = Some (name (first_player g))
                         then name (second_player g) else name (first_player g))
              else player_turn g)"
proof -
  obtain sr sc where f: "move_from = (sr, sc)" by (cases move_from)
  obtain er ec where t: "move_to = (er, ec)" by (cases move_to)
  from move_piece_outcomes [OF assms, of player_name sr sc er ec n]
  show ?thesis
    unfolding f t
  proof (elim disjE exE conjE)
    fix pl
    assume a: "in_bounds sr sc" "in_bounds er ec" "n \<le> int (length (cell g sr sc))"
        "check_move sr sc er ec n"
      and e: "move_piece g player_name (sr, sc) (er, ec) n =
        finish_move
          (shed (snd (transfer g (sr, sc) (er, ec) n)) pl er ec
             (length (cell (snd (transfer g (sr, sc) (er, ec) n)) er ec) - 5))
          pl"
    let ?b = "snd (transfer g (sr, sc) (er, ec) n)"
    let ?g3 = "shed ?b pl er ec (length (cell ?b er ec) - 5)"
    note tr = transfer_result [OF assms a(1,2,4,3)]
    have n3: "name (first_player ?g3) = name (first_player g)"
      "name (second_player ?g3) = name (second_player g)"
      using tr(5,6) unfolding first_player_get second_player_get by simp_all
    have t3: "player_turn ?g3 = player_turn g" using tr(4) by simp
    show "name (first_player (snd (move_piece g player_name (sr, sc) (er, ec) n)))
           = name (first_player g)
       \<and> name (second_player (snd (move_piece g player_name (sr, sc) (er, ec) n)))
           = name (second_player g)
       \<and> player_turn (snd (move_piece g player_name (sr, sc) (er, ec) n))
           = (if fst (move_piece g player_name (sr, sc) (er, ec) n) = Inr (PyStr ''Wins'')
              then None
              else if fst (move_piece g player_name (sr, sc) (er, ec) n)
                        = Inr (PyStr ''successfully moved'')
              then Some (if player_turn g = Some (name (first_player g))
                         then name (second_player g) else name (first_player g))
              else player_turn g)"
      unfolding e using n3 t3
      by (simp add: finish_move_def Let_def player_turn_switch_turns)
  qed simp_all
qed

text \<open>
  Claim C8, as the claim states it, fails: after the forty moves of \<open>whole_game\<close>, which
  start from a new game, player A holds the turn and moves the stack of five R pieces from
  (5, 5) onto the stack at (5, 0). The move is carried out and wins, and afterwards the
  turn is neither player's name.
\<close>

theorem winning_move_ends_turns:
  "reachable (play start whole_game)
   \<and> player_turn (play start whole_game) = Some ''A''
   \<and> fst (move_piece (play start whole_game) ''A'' (5, 5) (5, 0) 5) = Inr (PyStr ''Wins'')
   \<and> player_turn (snd (move_piece (play start whole_game) ''A'' (5, 5) (5, 0) 5)) \<noteq> Some ''B''
   \<and> player_turn (snd (move_piece (play start whole_game) ''A'' (5, 5) (5, 0) 5)) \<noteq> Some ''A''"
  using reachable_play [OF reachable_start, of whole_game]
  by (simp add: whole_game_facts)

text \<open>
  Claim C8, amended. In a game of two players with different names where one of them holds
  the turn: a \<^verbatim>\<open>reserved_move\<close> that is carried out and a \<^verbatim>\<open>move_piece\<close> that reports
  a move pass the turn to the other of the two players; a \<^verbatim>\<open>move_piece\<close> that reports
  a win sets the turn to \<^verbatim>\<open>None\<close>; every other call, rejected or raising, leaves the
  turn as it was. No call changes the names of the players.
\<close>

theorem turn_alternation:
  assumes "board_ok g" and "name (first_player g) \<noteq> name (second_player g)"
    and "player_turn g = Some (name (first_player g))
       \<or> player_turn g = Some (name (second_player g))"
  shows "let other = (if player_turn g = Some (name (first_player g))
                      then name (second_player g) else name (first_player g));
             rr = fst (reserved_move g player_name position);
             gr = snd (reserved_move g player_name position);
             rm = fst (move_piece g player_name move_from move_to n);
             gm = snd (move_piece g player_name move_from move_to n)
         in Some other \<noteq> player_turn g
          \<and> (other = name (first_player g) \<or> other = name (second_player g))
          \<and> (rr = Inr PyNone \<longrightarrow> player_turn gr = Some other)
          \<and> (rr \<noteq> Inr PyNone \<longrightarrow> player_turn gr = player_turn g)
          \<and> (rm = Inr (PyStr ''successfully moved'') \<longrightarrow> player_turn gm = Some other)
          \<and> (rm = Inr (PyStr ''Wins'') \<longrightarrow> player_turn gm = None)
          \<and> (rm \<noteq> Inr (PyStr ''successfully moved'') \<and> rm \<noteq> Inr (PyStr ''Wins'')
               \<longrightarrow> player_turn gm = player_turn g)
          \<and> name (first_player gr) = name (first_player g)
          \<and> name (second_player gr) = name (second_player g)
          \<and> name (first_player gm) = name (first_player g)
          \<and> name (second_player gm) = name (second_player g)"
  unfolding Let_def
  using reserved_move_turn [OF assms(1), of player_name position]
    move_piece_turn [OF assms(1), of player_name move_from move_to n] assms(2,3)
  by auto

theorem turn_alternation_witness:
  "board_ok start \<and> name (first_player start) \<noteq> name (second_player start)
   \<and> player_turn start = Some ''A''
   \<and> fst (move_piece start ''A'' (0, 0) (0, 1) 1) = Inr (PyStr ''successfully moved'')
   \<and> player_turn (snd (move_piece start ''A'' (0, 0) (0, 1) 1)) = Some ''B''
   \<and> player_turn (snd (reserved_move start ''A'' (0, 0))) = Some ''A''"
proof -
  have n: "name (first_player start) = ''A''" "name (second_player start) = ''B''"
    by (simp_all add: start_def FocusGame_init_def Let_def Player_init_def)
  have r: "fst (reserved_move start ''A'' (0, 0)) = Inr PyFalse"
    unfolding start_def by code_simp
  have d: "name (first_player start) \<noteq> name (second_player start)"
    by (simp add: n)
  have t: "player_turn start = Some (name (first_player start))
       \<or> player_turn start = Some (name (second_player start))"
    by (simp add: n start_facts)
  from turn_alternation [OF start_facts(1) d t, of "''A''" "(0, 0)" "(0, 0)" "(0, 1)" 1]
  show ?thesis
    by (simp add: Let_def n r start_facts first_move_facts)
qed

section \<open>The height of the stack where pieces land\<close>

lemma get_player_transfer:
  assumes "board_ok g" and "in_bounds sr sc" and "in_bounds er ec"
    and "check_move sr sc er ec n" and "n \<le> int (length (cell g sr sc))"
  shows "get_player (snd (transfer g (sr, sc) (er, ec) n)) r = get_player g r"
  using transfer_result(5,6) [OF assms] by (simp add: get_player_def split: pref.splits)

lemma move_piece_landing:
  assumes "board_ok g" and "players g player_name = Some rp"
    and "fst (move_piece g player_name move_from (row, column) n) = Inr (PyStr ''Wins'')
       \<or> fst (move_piece g player_name move_from (row, column) n)
            = Inr (PyStr ''successfully moved'')"
  shows "let b = snd (transfer g move_from (row, column) n);
             s = cell b row column;
             k = length s - 5;
             pc = piece (get_player g rp);
             g' = snd (move_piece g player_name move_from (row, column) n)
         in fst (remove_pieces b player_name row column) = None
          \<and> snd (finish_move (snd (remove_pieces b player_name row column)) rp) = g'
          \<and> cell g' row column = drop k s
          \<and> length (cell g' row column) = min 5 (length s)
          \<and> reserve (get_player g' rp)
              = reserve (get_player g rp) + int (length (filter (\<lambda>x. x = pc) (take k s)))
          \<and> captured (get_player g' rp)
              = captured (get_player g rp) + int (length (filter (\<lambda>x. x \<noteq> pc) (take k s)))
          \<and> (\<forall>r. r \<noteq> rp \<longrightarrow> get_player g' r = get_player g r)"
proof -
  obtain sr sc where f: "move_from = (sr, sc)" by (cases move_from)
  let ?b = "snd (transfer g (sr, sc) (row, column) n)"
  let ?k = "length (cell ?b row column) - 5"
  from assms(3) obtain pl where k: "players g player_name = Some pl"
    and ib: "in_bounds sr sc" "in_bounds row column"
    and le: "n \<le> int (length (cell g sr sc))" and cm: "check_move sr sc row column n"
    and m: "move_piece g player_name (sr, sc) (row, column) n =
           finish_move (shed ?b pl row column ?k) pl"
    unfolding f by (rule move_piece_success [OF assms(1)])
  from k assms(2) have pl: "pl = rp" by simp
  note tr = transfer_result [OF assms(1) ib cm le]
  have gp: "get_player ?b r = get_player g r" for r
    using assms(1) ib cm le by (rule get_player_transfer)
  have rm: "remove_pieces ?b player_name row column = (None, shed ?b rp row column ?k)"
    using tr(2) ib(2) by (rule remove_pieces_shed) (simp add: tr(3) assms(2))
  have c: "cell (shed ?b rp row column ?k) row column = drop ?k (cell ?b row column)"
    using tr(2) ib(2) by (simp add: cell_shed)
  show ?thesis
    unfolding f Let_def m pl rm fst_conv snd_conv
    by (simp add: c get_player_shed gp min_def)
qed

lemma reserved_move_landing:
  assumes "board_ok g" and "in_bounds row column" and "players g player_name = Some rp"
    and "fst (reserved_move g player_name (row, column)) = Inr PyNone"
  shows "let pc = piece (get_player g rp);
             b = upd_player (set_data g row column (enqueue (cell g row column) pc))
                   rp remove_reserved;
             s = cell b row column;
             k = length s - 5;
             g' = snd (reserved_move g player_name (row, column))
         in s = cell g row column @ [pc]
          \<and> fst (remove_pieces b player_name row column) = None
          \<and> switch_turns (snd (remove_pieces b player_name row column)) = g'
          \<and> cell g' row column = drop k s
          \<and> length (cell g' row column) = min 5 (length s)
          \<and> reserve (get_player g' rp)
              = reserve (get_player g rp) - 1 + int (length (filter (\<lambda>x. x = pc) (take k s)))
          \<and> captured (get_player g' rp)
              = captured (get_player g rp) + int (length (filter (\<lambda>x. x \<noteq> pc) (take k s)))
          \<and> (\<forall>r. r \<noteq> rp \<longrightarrow> get_player g' r = get_player g r)"
proof -
  define pc where "pc = piece (get_player g rp)"
  define b where
    "b = upd_player (set_data g row column (cell g row column @ [pc])) rp remove_reserved"
  define k where "k = length (cell g row column @ [pc]) - 5"
  have acc: "player_turn g = Some player_name \<and> 0 < reserve (get_player g rp)"
  proof (rule ccontr)
    assume "\<not> ?thesis"
    then have "player_turn g \<noteq> Some player_name \<or> reserve (get_player g rp) \<le> 0
        \<or> \<not> in_bounds row column" by auto
    from reserved_move_reject [OF assms(1,3) this] assms(4) show False by simp
  qed
  have e: "reserved_move g player_name (row, column)
      = (Inr PyNone, switch_turns (shed b rp row column k))"
    using reserved_move_accept [OF assms(1,3) _ _ assms(2)] acc
    by (simp add: b_def k_def pc_def)
  have ok: "board_ok b" using assms by (simp add: b_def board_ok_set_data)
  have cb: "cell b row column = cell g row column @ [pc]"
    using assms by (simp add: b_def cell_set_data)
  have pb: "players b player_name = Some rp" using assms(3) by (simp add: b_def)
  have rm: "remove_pieces b player_name row column = (None, shed b rp row column k)"
    using remove_pieces_shed [OF ok assms(2) pb] by (simp add: cb k_def)
  have c: "cell (shed b rp row column k) row column = drop k (cell g row column @ [pc])"
    using ok assms(2) by (simp add: cell_shed cb)
  have gp: "get_player b r = (if r = rp then remove_reserved (get_player g rp) else get_player g r)"
    for r
    by (simp add: b_def get_player_upd_player)
  have r: "reserve (get_player (shed b rp row column k) rp)
      = reserve (get_player g rp) - 1
        + int (length (filter (\<lambda>x. x = pc) (take k (cell g row column @ [pc]))))"
    and q: "captured (get_player (shed b rp row column k) rp)
      = captured (get_player g rp)
        + int (length (filter (\<lambda>x. x \<noteq> pc) (take k (cell g row column @ [pc]))))"
    and o: "\<forall>r. r \<noteq> rp \<longrightarrow> get_player (shed b rp row column k) r = get_player g r"
    using acc by (simp_all add: get_player_shed gp cb pc_def)
  have l: "length (drop k (cell g row column @ [pc])) = min 5 (length (cell g row column @ [pc]))"
    by (simp add: k_def min_def)
  show ?thesis
    unfolding Let_def enqueue_def
    unfolding pc_def [symmetric] b_def [symmetric] cb k_def [symmetric] e rm fst_conv snd_conv
    using c r q o l by simp
qed


text \<open>
  Claim C1. The height rule, for the player registered under \<open>player_name\<close> and a
  position on the board. \<^verbatim>\<open>remove_pieces\<close> does not raise; if the stack is longer than
  5 it removes the bottom pieces one by one until 5 are left and credits each removed
  piece, in bottom-to-top order, to that player: to the reserve count when the piece is the
  player's own symbol, to the captured count otherwise; the other player and the other
  cells are untouched, and a stack of at most 5 pieces leaves the state as it is.
  The engine applies it wherever a piece lands. After a \<^verbatim>\<open>move_piece\<close> that is carried
  out onto the position, the state is the one \<^verbatim>\<open>remove_pieces\<close> leaves of the board
  with the moved pieces appended (then the end of the move): the stack is cut down to its
  top 5 pieces, the mover's reserve and captured counts have grown by the numbers of own
  and other pieces among the removed ones, and the other player's counts are unchanged.
  After a \<^verbatim>\<open>reserved_move\<close> that is carried out onto the position the same holds of
  the stack with the placed piece on top, the mover's reserve being first one less.
\<close>

theorem height_rule_after_landing:
  assumes "board_ok g" and "in_bounds row column" and "players g player_name = Some rp"
  shows "(let s = cell g row column;
              k = length s - 5;
              pc = piece (get_player g rp);
              g' = snd (remove_pieces g player_name row column)
          in fst (remove_pieces g player_name row column) = None
           \<and> foldl (credit rp) (set_data g row column (drop k s)) (take k s) = g'
           \<and> cell g' row column = drop k s
           \<and> length (cell g' row column) = min 5 (length s)
           \<and> reserve (get_player g' rp)
               = reserve (get_player g rp) + int (length (filter (\<lambda>x. x = pc) (take k s)))
           \<and> captured (get_player g' rp)
               = captured (get_player g rp) + int (length (filter (\<lambda>x. x \<noteq> pc) (take k s)))
           \<and> (\<forall>r. r \<noteq> rp \<longrightarrow> get_player g' r = get_player g r)
           \<and> (\<forall>r c. in_bounds r c \<and> (r, c) \<noteq> (row, column) \<longrightarrow> cell g' r c = cell g r c)
           \<and> (length s \<le> 5 \<longrightarrow> g' = g))
       \<and> (fst (move_piece g player_name move_from (row, column) n) = Inr (PyStr ''Wins'')
          \<or> fst (move_piece g player_name move_from (row, column) n)
               = Inr (PyStr ''successfully moved'')
          \<longrightarrow>
          (let b = snd (transfer g move_from (row, column) n);
               s = cell b row column;
               k = length s - 5;
               pc = piece (get_player g rp);
               g' = snd (move_piece g player_name move_from (row, column) n)
           in fst (remove_pieces b player_name row column) = None
            \<and> snd (finish_move (snd (remove_pieces b player_name row column)) rp) = g'
            \<and> cell g' row column = drop k s
            \<and> length (cell g' row column) = min 5 (length s)
            \<and> reserve (get_player g' rp)
                = reserve (get_player g rp) + int (length (filter (\<lambda>x. x = pc) (take k s)))
            \<and> captured (get_player g' rp)
                = captured (get_player g rp) + int (length (filter (\<lambda>x. x \<noteq> pc) (take k s)))
            \<and> (\<forall>r. r \<noteq> rp \<longrightarrow> get_player g' r = get_player g r)))
       \<and> (fst (reserved_move g player_name (row, column)) = Inr PyNone
          \<longrightarrow>
          (let pc = piece (get_player g rp);
               b = upd_player (set_data g row column (enqueue (cell g row column) pc))
                     rp remove_reserved;
               s = cell b row column;
               k = length s - 5;
               g' = snd (reserved_move g player_name (row, column))
           in s = cell g row column @ [pc]
            \<and> fst (remove_pieces b player_name row column) = None
            \<and> switch_turns (snd (remove_pieces b player_name row column)) = g'
            \<and> cell g' row column = drop k s
            \<and> length (cell g' row column) = min 5 (length s)
            \<and> reserve (get_player g' rp)
                = reserve (get_player g rp) - 1 + int (length (filter (\<lambda>x. x = pc) (take k s)))
            \<and> captured (get_player g' rp)
                = captured (get_player g rp) + int (length (filter (\<lambda>x. x \<noteq> pc) (take k s)))
            \<and> (\<forall>r. r \<noteq> rp \<longrightarrow> get_player g' r = get_player g r)))"
  using remove_pieces_alone [OF assms]
    move_piece_landing [OF assms(1,3), of move_from row column n]
    reserved_move_landing [OF assms]
  by blast

lemma landing_facts:
  "in_bounds 5 0" "in_bounds 3 3"
  "cell (snd (transfer (play start whole_game) (5, 5) (5, 0) 5)) 5 0
     = [''G'', ''G'', ''R'', ''G'', ''R'', ''R'', ''R'', ''R'', ''R'']"
  "get_player (play start whole_game) Second
     = \<lparr>name = ''B'', piece = ''G'', reserve = 0, captured = 0\<rparr>"
  unfolding start_def whole_game_def in_bounds_def by code_simp+

theorem height_rule_after_landing_witness:
  "board_ok tall \<and> in_bounds 0 0 \<and> players tall ''A'' = Some First
   \<and> fst (remove_pieces tall ''A'' 0 0) = None
   \<and> cell (snd (remove_pieces tall ''A'' 0 0)) 0 0 = [''G'', ''R'', ''R'', ''G'', ''R'']
   \<and> reserve (get_player (snd (remove_pieces tall ''A'' 0 0)) First) = 1
   \<and> captured (get_player (snd (remove_pieces tall ''A'' 0 0)) First) = 1
   \<and> fst (move_piece (play start whole_game) ''A'' (5, 5) (5, 0) 5) = Inr (PyStr ''Wins'')
   \<and> cell (snd (move_piece (play start whole_game) ''A'' (5, 5) (5, 0) 5)) 5 0
       = [''R'', ''R'', ''R'', ''R'', ''R'']
   \<and> reserve (get_player (play start whole_game) First) = 1
   \<and> reserve (get_player (snd (move_piece (play start whole_game) ''A'' (5, 5) (5, 0) 5))
         First) = 2
   \<and> captured (get_player (play start whole_game) First) = 15
   \<and> captured (get_player (snd (move_piece (play start whole_game) ''A'' (5, 5) (5, 0) 5))
         First) = 18
   \<and> get_player (snd (move_piece (play start whole_game) ''A'' (5, 5) (5, 0) 5)) Second
       = \<lparr>name = ''B'', piece = ''G'', reserve = 0, captured = 0\<rparr>
   \<and> fst (reserved_move (play start build_up) ''A'' (3, 3)) = Inr PyNone
   \<and> reserve (get_player (snd (reserved_move (play start build_up) ''A'' (3, 3))) First) = 1
   \<and> captured (get_player (snd (reserved_move (play start build_up) ''A'' (3, 3))) First) = 1"
proof -
  have 1: "fst (remove_pieces tall ''A'' 0 0) = None
     \<and> cell (snd (remove_pieces tall ''A'' 0 0)) 0 0 = [''G'', ''R'', ''R'', ''G'', ''R'']
     \<and> reserve (get_player (snd (remove_pieces tall ''A'' 0 0)) First) = 1
     \<and> captured (get_player (snd (remove_pieces tall ''A'' 0 0)) First) = 1"
    using height_rule_after_landing [OF tall_facts(1) tall_facts(2) tall_facts(3)]
    by (simp add: Let_def tall_facts)
  have 2: "cell (snd (move_piece (play start whole_game) ''A'' (5, 5) (5, 0) 5)) 5 0
       = [''R'', ''R'', ''R'', ''R'', ''R'']
     \<and> reserve (get_player (snd (move_piece (play start whole_game) ''A'' (5, 5) (5, 0) 5))
         First) = 2
     \<and> captured (get_player (snd (move_piece (play start whole_game) ''A'' (5, 5) (5, 0) 5))
         First) = 18
     \<and> get_player (snd (move_piece (play start whole_game) ''A'' (5, 5) (5, 0) 5)) Second
       = \<lparr>name = ''B'', piece = ''G'', reserve = 0, captured = 0\<rparr>"
    using height_rule_after_landing [OF board_ok_whole_game landing_facts(1)
        whole_game_facts(2), of "(5, 5)" 5]
    by (simp add: Let_def whole_game_facts landing_facts)
  have 3: "reserve (get_player (snd (reserved_move (play start build_up) ''A'' (3, 3))) First) = 1
     \<and> captured (get_player (snd (reserved_move (play start build_up) ''A'' (3, 3))) First) = 1"
    using height_rule_after_landing [OF board_ok_build_up landing_facts(2) build_up_state(1)]
    by (simp add: Let_def build_up_state build_up_facts enqueue_def)
  from 1 2 3 show ?thesis
    by (simp add: tall_facts whole_game_facts build_up_facts)
qed

end
